theory Spec2Isabelle
  imports Main "HOL-Library.Sublist"
begin

section \<open>JavaScript values, as \<open>src/index.ts\<close> handles them\<close>

text \<open>
  The plugin reads the decoded JSON of a response through \<open>any\<close>-typed property
  accesses, so the model keeps the values untyped. \<open>JUndefined\<close> is what a missing
  property reads as. Numbers are modelled by their integer values (JSON cannot carry
  NaN); a string is the list of the bytes of its UTF-8 text, one per character for
  ASCII text.
\<close>

datatype jsval =
    JUndefined
  | JNull
  | JBool bool
  | JNum int
  | JStr string
  | JArr "jsval list"
  | JObj "(string \<times> jsval) list"

text \<open>
  Thrown values: \<open>Error\<close> objects, of which the code only reads \<open>.message\<close>. The
  message of a TypeError raised by the engine is the engine's own wording; the texts
  below stand for it, and no property depends on them.
\<close>

datatype exn = Error string | TypeError string | SyntaxError string

fun message :: "exn \<Rightarrow> string" where
  "message (Error m) = m"
| "message (TypeError m) = m"
| "message (SyntaxError m) = m"

fun is_nullish :: "jsval \<Rightarrow> bool" where
  "is_nullish JUndefined = True"
| "is_nullish JNull = True"
| "is_nullish _ = False"

text \<open>Truthiness, as \<open>if (x)\<close>, \<open>!x\<close> and \<open>a || b\<close> test it.\<close>

fun js_truthy :: "jsval \<Rightarrow> bool" where
  "js_truthy JUndefined = False"
| "js_truthy JNull = False"
| "js_truthy (JBool b) = b"
| "js_truthy (JNum n) = (n \<noteq> 0)"
| "js_truthy (JStr s) = (s \<noteq> [])"
| "js_truthy (JArr _) = True"
| "js_truthy (JObj _) = True"

text \<open>
  Values compared by content (primitives) as opposed to by reference (arrays, objects).
\<close>

fun is_primitive :: "jsval \<Rightarrow> bool" where
  "is_primitive (JArr _) = False"
| "is_primitive (JObj _) = False"
| "is_primitive _ = True"

text \<open>
  \<open>x.p\<close>: a TypeError on \<open>undefined\<close> and \<open>null\<close>, the own property of an object,
  and \<open>undefined\<close> otherwise. The names the plugin reads (\<open>result\<close>, \<open>data\<close>, \<open>chats\<close>,
  \<open>messages\<close>, \<open>id\<close>, \<open>type\<close>, \<open>mentions\<close>, \<open>senderId\<close>, \<open>content\<close>) are no built-in
  property of a string, a number, a boolean, an array or \<open>Object.prototype\<close>.
\<close>

fun get_prop :: "jsval \<Rightarrow> string \<Rightarrow> exn + jsval" where
  "get_prop JUndefined p = Inl (TypeError (''Cannot read properties of undefined (reading '' @ p @ '')''))"
| "get_prop JNull p = Inl (TypeError (''Cannot read properties of null (reading '' @ p @ '')''))"
| "get_prop (JObj kvs) p = Inr (case map_of kvs p of None \<Rightarrow> JUndefined | Some v \<Rightarrow> v)"
| "get_prop _ p = Inr JUndefined"

text \<open>\<open>x?.p\<close>: \<open>undefined\<close> on a nullish \<open>x\<close>, and \<open>x.p\<close> otherwise.\<close>

definition opt_get :: "jsval \<Rightarrow> string \<Rightarrow> jsval" where
  "opt_get x p =
     (if is_nullish x then JUndefined
      else (case get_prop x p of Inl _ \<Rightarrow> JUndefined | Inr v \<Rightarrow> v))"

text \<open>
  \<open>for (const x of v)\<close>: the elements of an array, the characters of a string, and a
  TypeError on every other value.
\<close>

fun iterate :: "jsval \<Rightarrow> exn + jsval list" where
  "iterate (JArr xs) = Inr xs"
| "iterate (JStr s) = Inr (map (\<lambda>c. JStr [c]) s)"
| "iterate _ = Inl (TypeError ''value is not iterable'')"

text \<open>
  SameValueZero, the comparison of \<open>Set.prototype.has\<close> and \<open>Array.prototype.includes\<close>:
  primitives by content, arrays and objects by reference. Every array or object
  compared here sits at its own place in a freshly decoded response (or in the
  configuration), so two of them are never the same reference.
\<close>

definition same_value_zero :: "jsval \<Rightarrow> jsval \<Rightarrow> bool" where
  "same_value_zero a b = (is_primitive a \<and> a = b)"

text \<open>Decimal text of a number, as a template literal prints it.\<close>

definition digit_char :: "nat \<Rightarrow> char" where
  "digit_char d = char_of (48 + d)"

function show_nat :: "nat \<Rightarrow> string" where
  "show_nat n = (if n < 10 then [digit_char n] else show_nat (n div 10) @ [digit_char (n mod 10)])"
  by pat_completeness auto
termination
  by (relation "measure (\<lambda>n. n)") auto

declare show_nat.simps [simp del]

definition show_int :: "int \<Rightarrow> string" where
  "show_int i = (if i < 0 then CHR ''-'' # show_nat (nat (- i)) else show_nat (nat i))"

text \<open>ToString, which \<open>String.prototype.includes\<close> applies to its argument.\<close>

fun js_to_string :: "jsval \<Rightarrow> string"
  and js_join :: "jsval list \<Rightarrow> string" where
  "js_to_string JUndefined = ''undefined''"
| "js_to_string JNull = ''null''"
| "js_to_string (JBool b) = (if b then ''true'' else ''false'')"
| "js_to_string (JNum n) = show_int n"
| "js_to_string (JStr s) = s"
| "js_to_string (JArr xs) = js_join xs"
| "js_to_string (JObj _) = ''[object Object]''"
| "js_join [] = []"
| "js_join [x] = (if is_nullish x then [] else js_to_string x)"
| "js_join (x # y # ys) =
     (if is_nullish x then [] else js_to_string x) @ '','' @ js_join (y # ys)"

fun str_includes :: "string \<Rightarrow> string \<Rightarrow> bool" where
  "str_includes [] n = (n = [])"
| "str_includes (c # cs) n = (take (length n) (c # cs) = n \<or> str_includes cs n)"

text \<open>
  \<open>m.includes(x)\<close> on a non-nullish \<open>m\<close>: the array method, the string method, and a
  TypeError where \<open>m.includes\<close> is no function.
\<close>

fun js_includes :: "jsval \<Rightarrow> jsval \<Rightarrow> exn + jsval" where
  "js_includes (JArr xs) x = Inr (JBool (list_ex (\<lambda>y. same_value_zero y x) xs))"
| "js_includes (JStr s) x = Inr (JBool (str_includes s (js_to_string x)))"
| "js_includes _ x = Inl (TypeError ''msg.mentions.includes is not a function'')"

section \<open>Configuration and requests\<close>

record SupChatConfig =
  baseUrl :: string
  authSessionPath :: string
  clientVersion :: "string option"
  sessionId :: "string option"
  pollInterval :: "int option"
  enabled :: "bool option"

record ChatContext =
  chatId :: string
  senderId :: string
  msg_text :: string
  messageId :: "string option"

text \<open>
  The body of a request is the text \<open>JSON.stringify(payload)\<close>; it is kept as the
  payload it serialises.
\<close>

datatype body_text = JSON_stringify jsval

record RequestInit =
  init_method :: "string option"
  init_body :: "body_text option"
  init_headers :: "(string \<rightharpoonup> string) option"

text \<open>What \<open>fetch(url, {...options, headers})\<close> receives.\<close>

record request =
  req_url :: string
  req_method :: "string option"
  req_body :: "body_text option"
  req_headers :: "string \<rightharpoonup> string"

text \<open>
  What the remote service does with a request: the \<open>fetch\<close> promise rejects, or it
  resolves to a response with \<open>ok\<close>, \<open>status\<close>, \<open>statusText\<close> and the outcome of
  \<open>response.json()\<close>.
\<close>

datatype fetch_outcome =
    Rejected exn
  | Response bool nat string "exn + jsval"

text \<open>
  \<open>...(s && {[k]: s})\<close> in an object literal: nothing for an unset or empty \<open>s\<close>, the
  one property otherwise.
\<close>

definition spread_if_set :: "string \<Rightarrow> string option \<Rightarrow> (string \<rightharpoonup> string)" where
  "spread_if_set k s =
     (case s of None \<Rightarrow> Map.empty
      | Some v \<Rightarrow> if v = [] then Map.empty else [k \<mapsto> v])"

definition spread_headers :: "(string \<rightharpoonup> string) option \<Rightarrow> (string \<rightharpoonup> string)" where
  "spread_headers h = (case h of None \<Rightarrow> Map.empty | Some m \<Rightarrow> m)"

text \<open>The \<open>headers\<close> object literal of \<open>makeSupRequest\<close>: later properties win.\<close>

definition makeSupRequest_headers ::
  "SupChatConfig \<Rightarrow> string \<Rightarrow> RequestInit \<Rightarrow> (string \<rightharpoonup> string)" where
  "makeSupRequest_headers config authSession options =
     [''Cookie'' \<mapsto> ''auth_session='' @ authSession,
      ''Content-Type'' \<mapsto> ''application/json'']
     ++ spread_if_set ''x-sup-client-version'' (clientVersion config)
     ++ spread_if_set ''x-sup-session-id'' (sessionId config)
     ++ spread_headers (init_headers options)"

definition makeSupRequest_request ::
  "SupChatConfig \<Rightarrow> string \<Rightarrow> string \<Rightarrow> RequestInit \<Rightarrow> request" where
  "makeSupRequest_request config authSession endpoint options =
     \<lparr> req_url = baseUrl config @ endpoint,
       req_method = init_method options,
       req_body = init_body options,
       req_headers = makeSupRequest_headers config authSession options \<rparr>"

section \<open>The world the plugin acts on\<close>

text \<open>
  The event handed to \<open>api.emit("message", ...)\<close>; its fields are copied from the
  decoded response without any check, so they stay untyped.
\<close>

record sync_event =
  ev_channel :: string
  ev_chatId :: jsval
  ev_messageId :: jsval
  ev_senderId :: jsval
  ev_text :: jsval
  ev_isDM :: bool
  ev_mentions :: jsval

text \<open>The handle \<open>setInterval\<close> returns: an object (or a positive number), always truthy.\<close>

datatype timer = Timer nat

text \<open>
  Every call that leaves the plugin, in the order it is made. \<open>Emit ev out\<close> is one call
  of \<open>api.emit\<close> with what it did: \<open>None\<close> when it returned, \<open>Some e\<close> when it threw \<open>e\<close>.
\<close>

datatype effect =
    LogInfo string
  | LogError string
  | ExistsSync string
  | ReadFileSync string
  | Fetch request
  | SeenAdd jsval
  | Emit sync_event "exn option"
  | SetInterval timer int
  | ClearInterval timer
  | ContextSet string timer
  | ContextDelete string

record world =
  trace :: "effect list"
  ctx_store :: "string \<rightharpoonup> timer"
  timers :: "(timer \<times> int) list"
  next_timer :: nat

datatype fs_entry = NoEntry | Unreadable exn | FileContent string

record api_config =
  channels :: "(string \<rightharpoonup> SupChatConfig) option"
  botUserId :: jsval

text \<open>
  The host and the machine, as far as the plugin reads them: \<open>api.config\<close>, the home
  directory, the file system, what \<open>api.emit\<close> does with an event (given all earlier
  calls), and the clock and random text behind an \<open>optimisticId\<close>.
\<close>

record api =
  api_config :: api_config
  os_homedir :: string
  fs :: "string \<Rightarrow> fs_entry"
  emit_outcome :: "effect list \<Rightarrow> sync_event \<Rightarrow> exn option"
  date_now :: nat
  random_base36 :: string

definition add_effects :: "world \<Rightarrow> effect list \<Rightarrow> world" where
  "add_effects w es = w\<lparr>trace := trace w @ es\<rparr>"

text \<open>What a run from \<open>w\<close> to \<open>w'\<close> added to the trace.\<close>

definition new_effects :: "world \<Rightarrow> world \<Rightarrow> effect list" where
  "new_effects w w' = drop (length (trace w)) (trace w')"

definition bind_res :: "exn + 'a \<Rightarrow> ('a \<Rightarrow> exn + 'b) \<Rightarrow> exn + 'b" where
  "bind_res r f = (case r of Inl e \<Rightarrow> Inl e | Inr v \<Rightarrow> f v)"

section \<open>loadAuthSession\<close>

text \<open>\<open>path.replace(/^~/, homedir())\<close>, for a home directory without \<open>$\<close>.\<close>

definition expand_home :: "string \<Rightarrow> string \<Rightarrow> string" where
  "expand_home home path =
     (case path of [] \<Rightarrow> path
      | c # rest \<Rightarrow> if c = CHR ''~'' then home @ rest else path)"

text \<open>
  \<open>String.prototype.trim\<close> on the UTF-8 text of the file: it strips, from both ends,
  every WhiteSpace and LineTerminator code point of ECMAScript (U+0009 to U+000D,
  U+0020, U+00A0, U+1680, U+2000 to U+200A, U+2028, U+2029, U+202F, U+205F, U+3000 and
  U+FEFF), each written here as its UTF-8 bytes.
\<close>

definition js_whitespace :: "string list" where
  "js_whitespace =
     [[CHR 0x09], [CHR 0x0A], [CHR 0x0B], [CHR 0x0C], [CHR 0x0D], [CHR 0x20],
      [CHR 0xC2, CHR 0xA0], [CHR 0xE1, CHR 0x9A, CHR 0x80],
      [CHR 0xE2, CHR 0x80, CHR 0x80], [CHR 0xE2, CHR 0x80, CHR 0x81],
      [CHR 0xE2, CHR 0x80, CHR 0x82], [CHR 0xE2, CHR 0x80, CHR 0x83],
      [CHR 0xE2, CHR 0x80, CHR 0x84], [CHR 0xE2, CHR 0x80, CHR 0x85],
      [CHR 0xE2, CHR 0x80, CHR 0x86], [CHR 0xE2, CHR 0x80, CHR 0x87],
      [CHR 0xE2, CHR 0x80, CHR 0x88], [CHR 0xE2, CHR 0x80, CHR 0x89],
      [CHR 0xE2, CHR 0x80, CHR 0x8A], [CHR 0xE2, CHR 0x80, CHR 0xA8],
      [CHR 0xE2, CHR 0x80, CHR 0xA9], [CHR 0xE2, CHR 0x80, CHR 0xAF],
      [CHR 0xE2, CHR 0x81, CHR 0x9F], [CHR 0xE3, CHR 0x80, CHR 0x80],
      [CHR 0xEF, CHR 0xBB, CHR 0xBF]]"

function trim_start :: "string list \<Rightarrow> string \<Rightarrow> string" where
  "trim_start ws s =
     (case find (\<lambda>p. p \<noteq> [] \<and> take (length p) s = p) ws of
        None \<Rightarrow> s
      | Some p \<Rightarrow> trim_start ws (drop (length p) s))"
  by pat_completeness auto
termination
proof (relation "measure (\<lambda>(ws, s). length s)")
  show "wf (measure (\<lambda>(ws, s). length s))" by simp
next
  fix ws :: "string list" and s p :: string
  assume "find (\<lambda>p. p \<noteq> [] \<and> take (length p) s = p) ws = Some p"
  then have "p \<noteq> []" and "take (length p) s = p"
    by (auto simp: find_Some_iff)
  then have "length p \<noteq> 0" and "length p \<le> length s"
    by (auto simp: min_def split: if_splits dest: arg_cong [where f = length])
  then have "length s - length p < length s"
    by arith
  then show "((ws, drop (length p) s), (ws, s)) \<in> measure (\<lambda>(ws, s). length s)"
    by simp
qed

declare trim_start.simps [simp del]

definition js_trim :: "string \<Rightarrow> string" where
  "js_trim s = rev (trim_start (map rev js_whitespace) (rev (trim_start js_whitespace s)))"

definition loadAuthSession_try :: "api \<Rightarrow> string \<Rightarrow> world \<Rightarrow> (exn + string) \<times> world" where
  "loadAuthSession_try E path w =
     (let expandedPath = expand_home (os_homedir E) path;
          w1 = add_effects w [ExistsSync expandedPath]
      in case fs E expandedPath of
           NoEntry \<Rightarrow>
             (Inl (Error (''Auth session file not found: '' @ expandedPath)), w1)
         | Unreadable e \<Rightarrow> (Inl e, add_effects w1 [ReadFileSync expandedPath])
         | FileContent c \<Rightarrow>
             (let content = js_trim c;
                  w2 = add_effects w1 [ReadFileSync expandedPath]
              in if content = []
                 then (Inl (Error (''Auth session file is empty: '' @ expandedPath)), w2)
                 else (Inr content, w2)))"

definition loadAuthSession :: "api \<Rightarrow> string \<Rightarrow> world \<Rightarrow> (exn + string) \<times> world" where
  "loadAuthSession E path w =
     (case loadAuthSession_try E path w of
        (Inl e, w') \<Rightarrow> (Inl (Error (''Failed to load auth session: '' @ message e)), w')
      | (Inr content, w') \<Rightarrow> (Inr content, w'))"

section \<open>makeSupRequest, sendChatMessage, fetchChatPanelData\<close>

definition makeSupRequest ::
  "(request \<Rightarrow> fetch_outcome) \<Rightarrow> SupChatConfig \<Rightarrow> string \<Rightarrow> string \<Rightarrow> RequestInit
     \<Rightarrow> world \<Rightarrow> (exn + jsval) \<times> world" where
  "makeSupRequest net config authSession endpoint options w =
     (let req = makeSupRequest_request config authSession endpoint options;
          w1 = add_effects w [Fetch req]
      in case net req of
           Rejected e \<Rightarrow> (Inl e, w1)
         | Response ok status statusText json \<Rightarrow>
             if \<not> ok
             then (Inl (Error (''API request failed: '' @ show_nat status @ '' '' @ statusText)), w1)
             else (json, w1))"

definition optimisticId :: "api \<Rightarrow> string" where
  "optimisticId E =
     ''msg_'' @ show_nat (date_now E) @ ''_'' @ take 9 (drop 2 (random_base36 E))"

definition sendChatMessage_payload :: "string \<Rightarrow> string \<Rightarrow> string \<Rightarrow> string list \<Rightarrow> jsval" where
  "sendChatMessage_payload oid chat_id txt mentions =
     JObj [
       (''json'', JObj [
          (''optimisticId'', JStr oid),
          (''chatId'', JStr chat_id),
          (''content'', JStr txt),
          (''contentData'', JObj [
             (''type'', JStr ''doc''),
             (''content'', JArr [
                JObj [
                  (''type'', JStr ''paragraph''),
                  (''content'', JArr [
                     JObj [
                       (''type'', JStr ''text''),
                       (''text'', JStr txt),
                       (''marks'', JArr [])]])]])]),
          (''mentions'', JArr (map JStr mentions)),
          (''attachments'', JArr []),
          (''isGenerated'', JBool True),
          (''isPostComment'', JBool False),
          (''visibility'', JStr ''public'')]),
       (''meta'', JObj [(''values'', JObj [])])]"

definition sendChatMessage_options :: "api \<Rightarrow> string \<Rightarrow> string \<Rightarrow> string list \<Rightarrow> RequestInit" where
  "sendChatMessage_options E chat_id txt mentions =
     \<lparr> init_method = Some ''POST'',
       init_body = Some (JSON_stringify (sendChatMessage_payload (optimisticId E) chat_id txt mentions)),
       init_headers = None \<rparr>"

definition sendChatMessage ::
  "api \<Rightarrow> (request \<Rightarrow> fetch_outcome) \<Rightarrow> SupChatConfig \<Rightarrow> string \<Rightarrow> string \<Rightarrow> string
     \<Rightarrow> string list \<Rightarrow> world \<Rightarrow> exn option \<times> world" where
  "sendChatMessage E net config authSession chat_id txt mentions w =
     (case makeSupRequest net config authSession ''/api/trpc/chatMessage.create''
             (sendChatMessage_options E chat_id txt mentions) w of
        (Inl e, w') \<Rightarrow> (Some e, w')
      | (Inr _, w') \<Rightarrow> (None, w'))"

definition no_options :: RequestInit where
  "no_options = \<lparr> init_method = None, init_body = None, init_headers = None \<rparr>"

definition fetchChatPanelData ::
  "(request \<Rightarrow> fetch_outcome) \<Rightarrow> SupChatConfig \<Rightarrow> string \<Rightarrow> world \<Rightarrow> (exn + jsval) \<times> world" where
  "fetchChatPanelData net config authSession w =
     makeSupRequest net config authSession ''/api/trpc/loader.chatPanelData'' no_options w"

section \<open>outbound.sendText\<close>

datatype send_result = SendOk | SendFailed string

text \<open>\<open>api.config.channels?.["sup-chat"]\<close>\<close>

definition sup_chat_config :: "api \<Rightarrow> SupChatConfig option" where
  "sup_chat_config E =
     (case channels (api_config E) of None \<Rightarrow> None | Some m \<Rightarrow> m ''sup-chat'')"

definition sendText_try ::
  "api \<Rightarrow> (request \<Rightarrow> fetch_outcome) \<Rightarrow> ChatContext \<Rightarrow> world \<Rightarrow> (exn + send_result) \<times> world" where
  "sendText_try E net ctx w =
     (case sup_chat_config E of
        None \<Rightarrow> (Inr (SendFailed ''Sup chat not configured''), w)
      | Some config \<Rightarrow>
          (case loadAuthSession E (authSessionPath config) w of
             (Inl e, w1) \<Rightarrow> (Inl e, w1)
           | (Inr authSession, w1) \<Rightarrow>
               (case sendChatMessage E net config authSession (chatId ctx) (msg_text ctx) [] w1 of
                  (Some e, w2) \<Rightarrow> (Inl e, w2)
                | (None, w2) \<Rightarrow>
                    (Inr SendOk,
                     add_effects w2 [LogInfo (''[sup-chat] Sent message to chat '' @ chatId ctx)]))))"

definition sendText ::
  "api \<Rightarrow> (request \<Rightarrow> fetch_outcome) \<Rightarrow> ChatContext \<Rightarrow> world \<Rightarrow> (exn + send_result) \<times> world" where
  "sendText E net ctx w =
     (case sendText_try E net ctx w of
        (Inr r, w') \<Rightarrow> (Inr r, w')
      | (Inl e, w') \<Rightarrow>
          (Inr (SendFailed (message e)),
           add_effects w' [LogError (''[sup-chat] Failed to send message: '' @ message e)]))"

section \<open>gateway.start: the poll closure\<close>

text \<open>
  What one call of \<open>gateway.start\<close> closes over: the configuration, the loaded session
  and its own \<open>seenMessageIds\<close>, a JavaScript \<open>Set\<close> (its elements in insertion order).
\<close>

record loop =
  loop_config :: SupChatConfig
  loop_authSession :: string
  seenMessageIds :: "jsval list"

definition set_has :: "jsval list \<Rightarrow> jsval \<Rightarrow> bool" where
  "set_has seen v = list_ex (\<lambda>x. same_value_zero x v) seen"

definition set_add :: "jsval list \<Rightarrow> jsval \<Rightarrow> jsval list" where
  "set_add seen v = (if set_has seen v then seen else seen @ [v])"

text \<open>\<open>msg.mentions?.includes(api.config.botUserId)\<close>\<close>

definition hasMention :: "api \<Rightarrow> jsval \<Rightarrow> exn + jsval" where
  "hasMention E msg =
     bind_res (get_prop msg ''mentions'') (\<lambda>m.
       if is_nullish m then Inr JUndefined else js_includes m (botUserId (api_config E)))"

text \<open>The object literal passed to \<open>api.emit\<close>.\<close>

definition message_event :: "jsval \<Rightarrow> jsval \<Rightarrow> bool \<Rightarrow> exn + sync_event" where
  "message_event chat msg is_dm =
     bind_res (get_prop chat ''id'') (\<lambda>cid.
     bind_res (get_prop msg ''id'') (\<lambda>mid.
     bind_res (get_prop msg ''senderId'') (\<lambda>sid.
     bind_res (get_prop msg ''content'') (\<lambda>txt.
     bind_res (get_prop msg ''mentions'') (\<lambda>ms.
       Inr \<lparr> ev_channel = ''sup-chat'', ev_chatId = cid, ev_messageId = mid,
             ev_senderId = sid, ev_text = txt, ev_isDM = is_dm, ev_mentions = ms \<rparr>)))))"

text \<open>
  The body of the inner \<open>for\<close> loop, lines 231 to 250, on the state \<open>(seenMessageIds,
  world)\<close>. The first component of the result is the exception that ends the cycle, if
  any; what was done before it stays done.
\<close>

definition process_msg ::
  "api \<Rightarrow> jsval \<Rightarrow> jsval \<Rightarrow> jsval list \<times> world \<Rightarrow> exn option \<times> jsval list \<times> world" where
  "process_msg E chat msg s =
     (case s of (seen, w) \<Rightarrow>
       (case get_prop msg ''id'' of
          Inl e \<Rightarrow> (Some e, seen, w)
        | Inr mid \<Rightarrow>
            if set_has seen mid then (None, seen, w)
            else
              (let seen1 = set_add seen mid;
                   w1 = add_effects w [SeenAdd mid]
               in case get_prop chat ''type'' of
                    Inl e \<Rightarrow> (Some e, seen1, w1)
                  | Inr ty \<Rightarrow>
                      (let isDM = (ty = JStr ''direct'')
                       in case hasMention E msg of
                            Inl e \<Rightarrow> (Some e, seen1, w1)
                          | Inr hm \<Rightarrow>
                              if isDM \<or> js_truthy hm
                              then (case message_event chat msg isDM of
                                      Inl e \<Rightarrow> (Some e, seen1, w1)
                                    | Inr ev \<Rightarrow>
                                        (let out = emit_outcome E (trace w1) ev
                                         in (out, seen1, add_effects w1 [Emit ev out])))
                              else (None, seen1, w1)))))"

fun process_msgs ::
  "api \<Rightarrow> jsval \<Rightarrow> jsval list \<Rightarrow> jsval list \<times> world \<Rightarrow> exn option \<times> jsval list \<times> world" where
  "process_msgs E chat [] s = (None, s)"
| "process_msgs E chat (msg # msgs) s =
     (case process_msg E chat msg s of
        (Some e, s') \<Rightarrow> (Some e, s')
      | (None, s') \<Rightarrow> process_msgs E chat msgs s')"

text \<open>The body of the outer \<open>for\<close> loop, lines 229 to 252.\<close>

definition process_chat ::
  "api \<Rightarrow> jsval \<Rightarrow> jsval list \<times> world \<Rightarrow> exn option \<times> jsval list \<times> world" where
  "process_chat E chat s =
     (case get_prop chat ''messages'' of
        Inl e \<Rightarrow> (Some e, s)
      | Inr msgs \<Rightarrow>
          if js_truthy msgs
          then (case iterate msgs of
                  Inl e \<Rightarrow> (Some e, s)
                | Inr ms \<Rightarrow> process_msgs E chat ms s)
          else (None, s))"

fun process_chats ::
  "api \<Rightarrow> jsval list \<Rightarrow> jsval list \<times> world \<Rightarrow> exn option \<times> jsval list \<times> world" where
  "process_chats E [] s = (None, s)"
| "process_chats E (chat # chats) s =
     (case process_chat E chat s of
        (Some e, s') \<Rightarrow> (Some e, s')
      | (None, s') \<Rightarrow> process_chats E chats s')"

text \<open>\<open>data?.result?.data?.chats\<close> and \<open>data.result.data.chats\<close>\<close>

definition chats_guard :: "jsval \<Rightarrow> jsval" where
  "chats_guard data = opt_get (opt_get (opt_get data ''result'') ''data'') ''chats''"

definition chats_of :: "jsval \<Rightarrow> exn + jsval" where
  "chats_of data =
     bind_res (get_prop data ''result'') (\<lambda>r.
     bind_res (get_prop r ''data'') (\<lambda>d. get_prop d ''chats''))"

text \<open>The \<open>try\<close> block of \<open>poll\<close>, lines 222 to 254.\<close>

definition poll_try ::
  "api \<Rightarrow> (request \<Rightarrow> fetch_outcome) \<Rightarrow> loop \<Rightarrow> world \<Rightarrow> exn option \<times> jsval list \<times> world" where
  "poll_try E net L w =
     (case fetchChatPanelData net (loop_config L) (loop_authSession L) w of
        (Inl e, w1) \<Rightarrow> (Some e, seenMessageIds L, w1)
      | (Inr data, w1) \<Rightarrow>
          if js_truthy (chats_guard data)
          then (case bind_res (chats_of data) iterate of
                  Inl e \<Rightarrow> (Some e, seenMessageIds L, w1)
                | Inr chats \<Rightarrow> process_chats E chats (seenMessageIds L, w1))
          else (None, seenMessageIds L, w1))"

text \<open>
  \<open>poll\<close>: the \<open>try\<close> block and its \<open>catch\<close>, which logs the message and returns. The
  first component is what the returned promise rejects with.
\<close>

definition poll ::
  "api \<Rightarrow> (request \<Rightarrow> fetch_outcome) \<Rightarrow> loop \<Rightarrow> world \<Rightarrow> exn option \<times> loop \<times> world" where
  "poll E net L w =
     (case poll_try E net L w of
        (None, seen', w') \<Rightarrow> (None, L\<lparr>seenMessageIds := seen'\<rparr>, w')
      | (Some e, seen', w') \<Rightarrow>
          (None, L\<lparr>seenMessageIds := seen'\<rparr>,
           add_effects w' [LogError (''[sup-chat] Poll error: '' @ message e)]))"

text \<open>
  The cycles of one loop instance, one after the other: each element of \<open>nets\<close> is the
  remote service as the cycle's fetch finds it. The part of a cycle after its one
  \<open>await\<close> runs to completion, so cycles process their snapshots one at a time.
\<close>

fun run_polls :: "api \<Rightarrow> (request \<Rightarrow> fetch_outcome) list \<Rightarrow> loop \<times> world \<Rightarrow> loop \<times> world" where
  "run_polls E [] s = s"
| "run_polls E (net # nets) s =
     (case s of (L, w) \<Rightarrow> run_polls E nets (snd (poll E net L w)))"

section \<open>gateway.start and gateway.stop\<close>

definition setInterval :: "int \<Rightarrow> world \<Rightarrow> timer \<times> world" where
  "setInterval ms w =
     (let h = Timer (next_timer w)
      in (h, (add_effects w [SetInterval h ms])
               \<lparr>timers := timers w @ [(h, ms)], next_timer := Suc (next_timer w)\<rparr>))"

definition clearInterval :: "timer \<Rightarrow> world \<Rightarrow> world" where
  "clearInterval h w =
     (add_effects w [ClearInterval h])\<lparr>timers := filter (\<lambda>p. fst p \<noteq> h) (timers w)\<rparr>"

definition context_set :: "string \<Rightarrow> timer \<Rightarrow> world \<Rightarrow> world" where
  "context_set k h w = (add_effects w [ContextSet k h])\<lparr>ctx_store := (ctx_store w)(k \<mapsto> h)\<rparr>"

definition context_delete :: "string \<Rightarrow> world \<Rightarrow> world" where
  "context_delete k w = (add_effects w [ContextDelete k])\<lparr>ctx_store := (ctx_store w)(k := None)\<rparr>"

text \<open>
  The \<open>try\<close> block of \<open>gateway.start\<close>, lines 213 to 269, in the order of its statements.
  \<open>net\<close> is the remote service as the initial poll finds it. Ticks of the timer that
  fire while the initial poll awaits its response are cycles of their own (see
  \<open>run_polls\<close>) and no part of this function.
\<close>

definition start_try ::
  "api \<Rightarrow> (request \<Rightarrow> fetch_outcome) \<Rightarrow> SupChatConfig \<Rightarrow> world
     \<Rightarrow> exn option \<times> loop option \<times> world" where
  "start_try E net config w =
     (case loadAuthSession E (authSessionPath config) w of
        (Inl e, w1) \<Rightarrow> (Some e, None, w1)
      | (Inr authSession, w1) \<Rightarrow>
          (let interval = (case pollInterval config of None \<Rightarrow> 5000 | Some ms \<Rightarrow> ms);
               L = \<lparr> loop_config = config, loop_authSession = authSession,
                     seenMessageIds = [] \<rparr>
           in case setInterval interval w1 of
                (intervalId, w2) \<Rightarrow>
                  (case poll E net L w2 of
                     (Some e, L', w3) \<Rightarrow> (Some e, Some L', w3)
                   | (None, L', w3) \<Rightarrow>
                       (None, Some L',
                        add_effects (context_set ''sup-chat-poll-interval'' intervalId w3)
                          [LogInfo (''[sup-chat] Gateway started (polling every ''
                                    @ show_int interval @ ''ms)'')]))))"

definition gateway_start ::
  "api \<Rightarrow> (request \<Rightarrow> fetch_outcome) \<Rightarrow> world \<Rightarrow> exn option \<times> loop option \<times> world" where
  "gateway_start E net w =
     (case sup_chat_config E of
        None \<Rightarrow> (None, None, add_effects w [LogInfo ''[sup-chat] Channel disabled, skipping start''])
      | Some config \<Rightarrow>
          if enabled config \<noteq> Some True
          then (None, None, add_effects w [LogInfo ''[sup-chat] Channel disabled, skipping start''])
          else
            (case start_try E net config
                    (add_effects w [LogInfo ''[sup-chat] Starting channel gateway'']) of
               (None, L, w') \<Rightarrow> (None, L, w')
             | (Some e, L, w') \<Rightarrow>
                 (Some e, L,
                  add_effects w' [LogError (''[sup-chat] Failed to start gateway: '' @ message e)])))"

definition gateway_stop :: "world \<Rightarrow> exn option \<times> world" where
  "gateway_stop w =
     (let w1 = (case ctx_store w ''sup-chat-poll-interval'' of
                  None \<Rightarrow> w
                | Some intervalId \<Rightarrow>
                    context_delete ''sup-chat-poll-interval'' (clearInterval intervalId w))
      in (None, add_effects w1 [LogInfo ''[sup-chat] Gateway stopped'']))"

section \<open>Vocabulary of the properties\<close>

text \<open>Reading a decoded JSON value along a path of property names and array indices.\<close>

datatype sel = Prop string | Idx nat

fun js_step :: "sel \<Rightarrow> jsval \<Rightarrow> jsval option" where
  "js_step (Prop p) (JObj kvs) = map_of kvs p"
| "js_step (Idx i) (JArr xs) = (if i < length xs then Some (xs ! i) else None)"
| "js_step _ _ = None"

fun js_path :: "sel list \<Rightarrow> jsval \<Rightarrow> jsval option" where
  "js_path [] v = Some v"
| "js_path (s # ps) v = (case js_step s v of None \<Rightarrow> None | Some v' \<Rightarrow> js_path ps v')"

text \<open>The calls of \<open>api.emit\<close> for message id \<open>M\<close>, and the insertions of \<open>M\<close> into the set.\<close>

fun is_emit :: "effect \<Rightarrow> bool" where
  "is_emit (Emit ev out) = True"
| "is_emit _ = False"

fun is_emit_for :: "jsval \<Rightarrow> effect \<Rightarrow> bool" where
  "is_emit_for M (Emit ev out) = (ev_messageId ev = M)"
| "is_emit_for M _ = False"

fun is_failed_emit_for :: "jsval \<Rightarrow> effect \<Rightarrow> bool" where
  "is_failed_emit_for M (Emit ev out) = (ev_messageId ev = M \<and> out \<noteq> None)"
| "is_failed_emit_for M _ = False"

fun is_add_for :: "jsval \<Rightarrow> effect \<Rightarrow> bool" where
  "is_add_for M (SeenAdd v) = (v = M)"
| "is_add_for M _ = False"

definition emits_for :: "jsval \<Rightarrow> effect list \<Rightarrow> effect list" where
  "emits_for M t = filter (is_emit_for M) t"

definition adds_for :: "jsval \<Rightarrow> effect list \<Rightarrow> effect list" where
  "adds_for M t = filter (is_add_for M) t"

fun is_fetch :: "effect \<Rightarrow> bool" where
  "is_fetch (Fetch r) = True"
| "is_fetch _ = False"

fun is_set_interval :: "effect \<Rightarrow> bool" where
  "is_set_interval (SetInterval h ms) = True"
| "is_set_interval _ = False"

text \<open>A trace, cut where the timer is armed.\<close>

definition effects_before_timer :: "effect list \<Rightarrow> effect list" where
  "effects_before_timer t = takeWhile (\<lambda>e. \<not> is_set_interval e) t"

definition effects_from_timer :: "effect list \<Rightarrow> effect list" where
  "effects_from_timer t = dropWhile (\<lambda>e. \<not> is_set_interval e) t"

text \<open>
  The mentions of a message as the interface \<open>SupChatMessage\<close> declares them
  (\<open>mentions?: string[]\<close>): absent (or \<open>null\<close>), or an array.
\<close>

definition mentions_of :: "jsval \<Rightarrow> jsval list option" where
  "mentions_of msg =
     (case get_prop msg ''mentions'' of
        Inr JUndefined \<Rightarrow> Some []
      | Inr JNull \<Rightarrow> Some []
      | Inr (JArr xs) \<Rightarrow> Some xs
      | _ \<Rightarrow> None)"

text \<open>The ids inserted into the set, and the ids of the events emitted, in a trace.\<close>

fun added_ids :: "effect list \<Rightarrow> jsval list" where
  "added_ids [] = []"
| "added_ids (SeenAdd v # t) = v # added_ids t"
| "added_ids (e # t) = added_ids t"

fun emitted_ids :: "effect list \<Rightarrow> jsval list" where
  "emitted_ids [] = []"
| "emitted_ids (Emit ev out # t) = ev_messageId ev # emitted_ids t"
| "emitted_ids (e # t) = emitted_ids t"

text \<open>
  The relation between the state \<open>(seenMessageIds, world)\<close> before and after any part
  of a cycle, for one message id \<open>M\<close>: the trace only grows, the timer and the stored
  handle stay, the set after is the set before followed by the ids inserted on the
  way, every emitted event carries an inserted id, an id already in the set is
  neither added nor emitted, and an id not yet in it is added at most once and
  emitted no more often than added.
\<close>

definition cycle_step :: "jsval \<Rightarrow> jsval list \<times> world \<Rightarrow> jsval list \<times> world \<Rightarrow> bool" where
  "cycle_step M s s' =
     (trace (snd s') = trace (snd s) @ new_effects (snd s) (snd s')
      \<and> ctx_store (snd s') = ctx_store (snd s)
      \<and> timers (snd s') = timers (snd s)
      \<and> next_timer (snd s') = next_timer (snd s)
      \<and> fst s' = fst s @ added_ids (new_effects (snd s) (snd s'))
      \<and> set (emitted_ids (new_effects (snd s) (snd s')))
            \<subseteq> set (added_ids (new_effects (snd s) (snd s')))
      \<and> (if M \<in> set (fst s)
          then emits_for M (new_effects (snd s) (snd s')) = []
               \<and> adds_for M (new_effects (snd s) (snd s')) = []
          else length (emits_for M (new_effects (snd s) (snd s')))
                 \<le> length (adds_for M (new_effects (snd s) (snd s')))
               \<and> length (adds_for M (new_effects (snd s) (snd s')))
                 = (if M \<in> set (fst s') then 1 else 0)))"

text \<open>The request \<open>sendChatMessage\<close> hands to \<open>fetch\<close>.\<close>

definition sendChatMessage_request ::
  "api \<Rightarrow> SupChatConfig \<Rightarrow> string \<Rightarrow> string \<Rightarrow> string \<Rightarrow> string list \<Rightarrow> request" where
  "sendChatMessage_request E config authSession chat_id txt mentions =
     makeSupRequest_request config authSession ''/api/trpc/chatMessage.create''
       (sendChatMessage_options E chat_id txt mentions)"

text \<open>
  The worlds \<open>gateway.start\<close> passes through on an enabled configuration: after the
  credential is loaded, after the timer is armed, and the initial poll from there.
\<close>

definition start_world_loaded :: "api \<Rightarrow> SupChatConfig \<Rightarrow> world \<Rightarrow> world" where
  "start_world_loaded E config w =
     snd (loadAuthSession E (authSessionPath config)
            (add_effects w [LogInfo ''[sup-chat] Starting channel gateway'']))"

definition start_interval :: "SupChatConfig \<Rightarrow> int" where
  "start_interval config = (case pollInterval config of None \<Rightarrow> 5000 | Some ms \<Rightarrow> ms)"

definition start_world_armed :: "api \<Rightarrow> SupChatConfig \<Rightarrow> world \<Rightarrow> world" where
  "start_world_armed E config w =
     snd (setInterval (start_interval config) (start_world_loaded E config w))"

definition start_initial_poll ::
  "api \<Rightarrow> (request \<Rightarrow> fetch_outcome) \<Rightarrow> SupChatConfig \<Rightarrow> string \<Rightarrow> world
     \<Rightarrow> exn option \<times> loop \<times> world" where
  "start_initial_poll E net config authSession w =
     poll E net \<lparr> loop_config = config, loop_authSession = authSession, seenMessageIds = [] \<rparr>
       (start_world_armed E config w)"

text \<open>
  The snapshots of the data model, read from a decoded response: the id of a message,
  whether a message is relevant to the identity \<open>self\<close> (its chat is direct, or \<open>self\<close> is
  one of its mentions), and the shape the interfaces declare. A message is well
  typed when it is no \<open>null\<close>, its id is a primitive value and its mentions are absent
  or an array; a chat when it is no \<open>null\<close> and its messages are absent (or falsy) or an
  array of well-typed messages; a snapshot when \<open>result.data.chats\<close> is absent (or
  falsy) or an array of well-typed chats.
\<close>

definition msg_id :: "jsval \<Rightarrow> jsval" where
  "msg_id msg = (case get_prop msg ''id'' of Inl e \<Rightarrow> JUndefined | Inr v \<Rightarrow> v)"

definition relevant :: "jsval \<Rightarrow> jsval \<Rightarrow> jsval \<Rightarrow> bool" where
  "relevant self chat msg =
     (get_prop chat ''type'' = Inr (JStr ''direct'')
      \<or> (case mentions_of msg of None \<Rightarrow> False | Some ms \<Rightarrow> self \<in> set ms))"

definition typed_msg :: "jsval \<Rightarrow> bool" where
  "typed_msg msg = (\<not> is_nullish msg \<and> is_primitive (msg_id msg) \<and> mentions_of msg \<noteq> None)"

definition chat_messages :: "jsval \<Rightarrow> jsval list" where
  "chat_messages chat = (case get_prop chat ''messages'' of Inr (JArr ms) \<Rightarrow> ms | _ \<Rightarrow> [])"

definition typed_chat :: "jsval \<Rightarrow> bool" where
  "typed_chat chat =
     (\<not> is_nullish chat
      \<and> (case get_prop chat ''messages'' of
            Inl e \<Rightarrow> False
          | Inr (JArr ms) \<Rightarrow> list_all typed_msg ms
          | Inr v \<Rightarrow> \<not> js_truthy v))"

definition chat_pairs :: "jsval \<Rightarrow> (jsval \<times> jsval) list" where
  "chat_pairs chat = map (Pair chat) (chat_messages chat)"

definition snapshot_chats :: "jsval \<Rightarrow> jsval list" where
  "snapshot_chats data = (case chats_guard data of JArr cs \<Rightarrow> cs | _ \<Rightarrow> [])"

definition typed_snapshot :: "jsval \<Rightarrow> bool" where
  "typed_snapshot data =
     (case chats_guard data of JArr cs \<Rightarrow> list_all typed_chat cs | v \<Rightarrow> \<not> js_truthy v)"

text \<open>
  The (chat, message) pairs of a snapshot, in the order the two loops of \<open>poll\<close> walk
  them.
\<close>

definition snapshot_pairs :: "jsval \<Rightarrow> (jsval \<times> jsval) list" where
  "snapshot_pairs data = concat (map chat_pairs (snapshot_chats data))"

text \<open>
  The snapshot a cycle of the loop \<open>L\<close> receives from the remote service \<open>net\<close> (none when
  the request fails), and the pairs of all the snapshots of a run, in order.
\<close>

definition poll_request :: "loop \<Rightarrow> request" where
  "poll_request L =
     makeSupRequest_request (loop_config L) (loop_authSession L)
       ''/api/trpc/loader.chatPanelData'' no_options"

definition fetched :: "loop \<Rightarrow> (request \<Rightarrow> fetch_outcome) \<Rightarrow> jsval option" where
  "fetched L net =
     (case net (poll_request L) of
        Rejected e \<Rightarrow> None
      | Response ok status statusText json \<Rightarrow>
          if ok then (case json of Inl e \<Rightarrow> None | Inr data \<Rightarrow> Some data) else None)"

definition typed_net :: "loop \<Rightarrow> (request \<Rightarrow> fetch_outcome) \<Rightarrow> bool" where
  "typed_net L net = (case fetched L net of None \<Rightarrow> True | Some data \<Rightarrow> typed_snapshot data)"

definition net_pairs :: "loop \<Rightarrow> (request \<Rightarrow> fetch_outcome) \<Rightarrow> (jsval \<times> jsval) list" where
  "net_pairs L net = (case fetched L net of None \<Rightarrow> [] | Some data \<Rightarrow> snapshot_pairs data)"

definition run_pairs :: "loop \<Rightarrow> (request \<Rightarrow> fetch_outcome) list \<Rightarrow> (jsval \<times> jsval) list" where
  "run_pairs L nets = concat (map (net_pairs L) nets)"

text \<open>
  The id \<open>M\<close> occurs among the pairs, and the message is relevant where it occurs first.
\<close>

fun first_relevant :: "jsval \<Rightarrow> jsval \<Rightarrow> (jsval \<times> jsval) list \<Rightarrow> bool" where
  "first_relevant self M [] = False"
| "first_relevant self M ((chat, msg) # ps) =
     (if msg_id msg = M then relevant self chat msg else first_relevant self M ps)"

text \<open>
  The relation of a part of a cycle that walks the pairs \<open>ps\<close> without failing: on top of
  \<open>cycle_step\<close>, the set gains exactly the ids of \<open>ps\<close>, and an id not yet in the set is
  emitted once if it is relevant where it first occurs in \<open>ps\<close>, and not at all
  otherwise.
\<close>

definition typed_step ::
  "jsval \<Rightarrow> jsval \<Rightarrow> (jsval \<times> jsval) list \<Rightarrow> jsval list \<times> world \<Rightarrow> jsval list \<times> world \<Rightarrow> bool" where
  "typed_step self M ps s s' =
     (cycle_step M s s'
      \<and> set (fst s') = set (fst s) \<union> (\<lambda>p. msg_id (snd p)) ` set ps
      \<and> (M \<notin> set (fst s) \<longrightarrow>
            length (emits_for M (new_effects (snd s) (snd s')))
              = (if first_relevant self M ps then 1 else 0)))"

section \<open>Concrete inputs\<close>

definition ex_config :: SupChatConfig where
  "ex_config =
     \<lparr> baseUrl = ''https://sup.net'', authSessionPath = ''~/.config/sup/auth_session'',
       clientVersion = Some ''2.0'', sessionId = None, pollInterval = None,
       enabled = Some True \<rparr>"

definition ex_fs :: "string \<Rightarrow> fs_entry" where
  "ex_fs p = (if p = ''/home/u/.config/sup/auth_session''
              then FileContent (''tok'' @ [CHR 0x0A]) else NoEntry)"

definition ex_api :: api where
  "ex_api =
     \<lparr> api_config = \<lparr> channels = Some [''sup-chat'' \<mapsto> ex_config], botUserId = JStr ''bot'' \<rparr>,
       os_homedir = ''/home/u'', fs = ex_fs, emit_outcome = (\<lambda>t ev. None),
       date_now = 1700000000000, random_base36 = ''0.k3j9x0q2m7p'' \<rparr>"

definition ex_world :: world where
  "ex_world = \<lparr> trace = [], ctx_store = Map.empty, timers = [], next_timer = 1 \<rparr>"

definition ex_loop :: loop where
  "ex_loop = \<lparr> loop_config = ex_config, loop_authSession = ''tok'', seenMessageIds = [] \<rparr>"

definition ex_msg :: "string \<Rightarrow> jsval" where
  "ex_msg i = JObj [(''id'', JStr i), (''senderId'', JStr ''u1''), (''content'', JStr ''hi'')]"

definition ex_chat :: "string \<Rightarrow> string \<Rightarrow> jsval list \<Rightarrow> jsval" where
  "ex_chat i ty msgs = JObj [(''id'', JStr i), (''type'', JStr ty), (''messages'', JArr msgs)]"

definition ex_snapshot :: "jsval list \<Rightarrow> jsval" where
  "ex_snapshot chats = JObj [(''result'', JObj [(''data'', JObj [(''chats'', JArr chats)])])]"

definition ex_net :: "jsval \<Rightarrow> request \<Rightarrow> fetch_outcome" where
  "ex_net data req = Response True 200 ''OK'' (Inr data)"

definition ex_net_down :: "request \<Rightarrow> fetch_outcome" where
  "ex_net_down req = Rejected (TypeError ''fetch failed'')"

text \<open>A group chat and a direct chat, each with the one message \<open>m1\<close> and no mention.\<close>

definition ex_group_snapshot :: jsval where
  "ex_group_snapshot = ex_snapshot [ex_chat ''C1'' ''group'' [ex_msg ''m1'']]"

definition ex_direct_snapshot :: jsval where
  "ex_direct_snapshot = ex_snapshot [ex_chat ''C1'' ''direct'' [ex_msg ''m1'']]"

text \<open>A direct chat with \<open>m1\<close>, followed by \<open>null\<close> where a chat should be.\<close>

definition ex_broken_snapshot :: jsval where
  "ex_broken_snapshot = ex_snapshot [ex_chat ''C1'' ''direct'' [ex_msg ''m1''], JNull]"

definition ex_seen_loop :: loop where
  "ex_seen_loop = ex_loop\<lparr>seenMessageIds := [JStr ''m1'']\<rparr>"

definition ex_unconfigured_api :: api where
  "ex_unconfigured_api = ex_api\<lparr>api_config := \<lparr> channels = None, botUserId = JStr ''bot'' \<rparr>\<rparr>"

text \<open>A message that mentions the bot.\<close>

definition ex_mention_msg :: "string \<Rightarrow> jsval" where
  "ex_mention_msg i =
     JObj [(''id'', JStr i), (''senderId'', JStr ''u1''), (''content'', JStr ''hi''),
           (''mentions'', JArr [JStr ''u2'', JStr ''bot''])]"

definition ex_disabled_api :: api where
  "ex_disabled_api =
     ex_api\<lparr>api_config := \<lparr> channels = Some [''sup-chat'' \<mapsto> ex_config\<lparr>enabled := Some False\<rparr>],
                                  botUserId = JStr ''bot'' \<rparr>\<rparr>"

text \<open>
  The group chat of \<open>ex_group_snapshot\<close> after its message \<open>m1\<close> was edited to mention the
  bot.
\<close>

definition ex_edited_snapshot :: jsval where
  "ex_edited_snapshot = ex_snapshot [ex_chat ''C1'' ''group'' [ex_mention_msg ''m1'']]"

text \<open>A sink that throws on every event.\<close>

definition ex_failing_sink_api :: api where
  "ex_failing_sink_api = ex_api\<lparr>emit_outcome := (\<lambda>t ev. Some (Error ''sink failed''))\<rparr>"

section \<open>Traces\<close>

lemma trace_add_effects: "trace (add_effects w es) = trace w @ es"
  by (simp add: add_effects_def)

lemma add_effects_fields [simp]:
  "ctx_store (add_effects w es) = ctx_store w"
  "timers (add_effects w es) = timers w"
  "next_timer (add_effects w es) = next_timer w"
  by (simp_all add: add_effects_def)

lemma new_effects_append: "trace w' = trace w @ t \<Longrightarrow> new_effects w w' = t"
  by (simp add: new_effects_def)

lemma new_effects_self: "new_effects w w = []"
  by (simp add: new_effects_def)

lemma new_effects_trans:
  assumes "trace w' = trace w @ new_effects w w'"
    and "trace w'' = trace w' @ new_effects w' w''"
  shows "new_effects w w'' = new_effects w w' @ new_effects w' w''"
proof -
  have "trace w'' = trace w @ (new_effects w w' @ new_effects w' w'')"
    using assms by (metis append.assoc)
  then show ?thesis by (rule new_effects_append)
qed

lemma makeSupRequest_world:
  "snd (makeSupRequest net config a ep opts w) =
     add_effects w [Fetch (makeSupRequest_request config a ep opts)]"
  by (simp add: makeSupRequest_def Let_def split: fetch_outcome.splits)

lemma makeSupRequest_trace:
  "trace (snd (makeSupRequest net config a ep opts w)) =
     trace w @ [Fetch (makeSupRequest_request config a ep opts)]"
  by (simp add: makeSupRequest_world trace_add_effects)

lemmas model_defs =
  poll_def poll_try_def fetchChatPanelData_def makeSupRequest_def process_chat_def process_msg_def
  hasMention_def message_event_def bind_res_def chats_guard_def chats_of_def opt_get_def
  set_has_def set_add_def same_value_zero_def add_effects_def new_effects_def
  emits_for_def adds_for_def

lemmas ex_defs =
  ex_api_def ex_config_def ex_world_def ex_loop_def ex_msg_def ex_chat_def ex_snapshot_def
  ex_net_def ex_net_down_def ex_fs_def ex_direct_snapshot_def

section \<open>The invariant of a cycle\<close>

lemma added_ids_append: "added_ids (t @ u) = added_ids t @ added_ids u"
  by (induction t rule: added_ids.induct) simp_all

lemma emitted_ids_append: "emitted_ids (t @ u) = emitted_ids t @ emitted_ids u"
  by (induction t rule: emitted_ids.induct) simp_all

lemma cycle_step_refl: "cycle_step M s s"
  by (simp add: cycle_step_def new_effects_self emits_for_def adds_for_def)

lemma cycle_step_trans:
  assumes a: "cycle_step M s s'" and b: "cycle_step M s' s''"
  shows "cycle_step M s s''"
proof -
  have t1: "trace (snd s') = trace (snd s) @ new_effects (snd s) (snd s')"
    using a by (simp add: cycle_step_def)
  have t2: "trace (snd s'') = trace (snd s') @ new_effects (snd s') (snd s'')"
    using b by (simp add: cycle_step_def)
  have n: "new_effects (snd s) (snd s'') = new_effects (snd s) (snd s') @ new_effects (snd s') (snd s'')"
    by (rule new_effects_trans [OF t1 t2])
  have tr: "trace (snd s'') = trace (snd s) @ new_effects (snd s) (snd s'')"
    using t1 t2 n by simp
  have ys: "fst s' = fst s @ added_ids (new_effects (snd s) (snd s'))"
    using a by (simp add: cycle_step_def)
  have zs: "fst s'' = fst s' @ added_ids (new_effects (snd s') (snd s''))"
    using b by (simp add: cycle_step_def)
  have grow: "fst s'' = fst s @ added_ids (new_effects (snd s) (snd s''))"
    using ys zs by (simp add: n added_ids_append)
  have em: "set (emitted_ids (new_effects (snd s) (snd s'')))
              \<subseteq> set (added_ids (new_effects (snd s) (snd s'')))"
    using a b by (auto simp: cycle_step_def n added_ids_append emitted_ids_append)
  have mem: "M \<in> set (fst s) \<Longrightarrow> M \<in> set (fst s')"
    using ys by (metis UnCI set_append)
  have fields: "ctx_store (snd s'') = ctx_store (snd s)" "timers (snd s'') = timers (snd s)"
    "next_timer (snd s'') = next_timer (snd s)"
    using a b by (simp_all add: cycle_step_def)
  have counts: "if M \<in> set (fst s)
          then emits_for M (new_effects (snd s) (snd s'')) = []
               \<and> adds_for M (new_effects (snd s) (snd s'')) = []
          else length (emits_for M (new_effects (snd s) (snd s'')))
                 \<le> length (adds_for M (new_effects (snd s) (snd s'')))
               \<and> length (adds_for M (new_effects (snd s) (snd s'')))
                 = (if M \<in> set (fst s'') then 1 else 0)"
  proof (cases "M \<in> set (fst s)")
    case True
    with a b mem show ?thesis
      by (simp add: cycle_step_def n emits_for_def adds_for_def)
  next
    case False
    show ?thesis
    proof (cases "M \<in> set (fst s')")
      case True
      have "M \<in> set (fst s'')" using True zs by (metis UnCI set_append)
      with a b False True show ?thesis
        by (simp add: cycle_step_def n emits_for_def adds_for_def)
    next
      case False
      with a b \<open>M \<notin> set (fst s)\<close> show ?thesis
        by (auto simp: cycle_step_def n emits_for_def adds_for_def)
    qed
  qed
  show ?thesis
    unfolding cycle_step_def
    using tr fields grow em counts by simp
qed

lemma cycle_step_trace:
  "cycle_step M s s' \<Longrightarrow> trace (snd s') = trace (snd s) @ new_effects (snd s) (snd s')"
  by (simp add: cycle_step_def)

lemma cycle_step_fields:
  "cycle_step M s s' \<Longrightarrow>
     ctx_store (snd s') = ctx_store (snd s) \<and> timers (snd s') = timers (snd s)
     \<and> next_timer (snd s') = next_timer (snd s)"
  by (simp add: cycle_step_def)

lemma cycle_step_grows:
  "cycle_step M s s' \<Longrightarrow> fst s' = fst s @ added_ids (new_effects (snd s) (snd s'))"
  by (simp add: cycle_step_def)

lemma cycle_step_emitted:
  "cycle_step M s s' \<Longrightarrow>
     set (emitted_ids (new_effects (snd s) (snd s')))
       \<subseteq> set (added_ids (new_effects (snd s) (snd s')))"
  by (simp add: cycle_step_def)

lemma cycle_step_counts:
  "cycle_step M s s' \<Longrightarrow>
     (if M \<in> set (fst s)
      then emits_for M (new_effects (snd s) (snd s')) = []
           \<and> adds_for M (new_effects (snd s) (snd s')) = []
      else length (emits_for M (new_effects (snd s) (snd s')))
             \<le> length (adds_for M (new_effects (snd s) (snd s')))
           \<and> length (adds_for M (new_effects (snd s) (snd s')))
             = (if M \<in> set (fst s') then 1 else 0))"
  unfolding cycle_step_def by blast

lemma cycle_step_seen:
  assumes "cycle_step M s s'" and "M \<in> set (fst s)"
  shows "emits_for M (new_effects (snd s) (snd s')) = []"
    and "adds_for M (new_effects (snd s) (snd s')) = []"
    and "M \<in> set (fst s')"
proof -
  have "emits_for M (new_effects (snd s) (snd s')) = []
           \<and> adds_for M (new_effects (snd s) (snd s')) = []"
    using cycle_step_counts [OF assms(1)] assms(2) by simp
  then show "emits_for M (new_effects (snd s) (snd s')) = []"
    and "adds_for M (new_effects (snd s) (snd s')) = []"
    by blast+
  have "fst s' = fst s @ added_ids (new_effects (snd s) (snd s'))"
    by (rule cycle_step_grows [OF assms(1)])
  then have "set (fst s) \<subseteq> set (fst s')"
    by (metis set_append sup_ge1)
  with assms(2) show "M \<in> set (fst s')" by blast
qed

lemma cycle_step_unseen:
  assumes "cycle_step M s s'" and "M \<notin> set (fst s)"
  shows "length (emits_for M (new_effects (snd s) (snd s')))
           \<le> length (adds_for M (new_effects (snd s) (snd s')))"
    and "length (adds_for M (new_effects (snd s) (snd s'))) = (if M \<in> set (fst s') then 1 else 0)"
proof -
  have "length (emits_for M (new_effects (snd s) (snd s')))
             \<le> length (adds_for M (new_effects (snd s) (snd s')))
           \<and> length (adds_for M (new_effects (snd s) (snd s')))
             = (if M \<in> set (fst s') then 1 else 0)"
    using cycle_step_counts [OF assms(1)] assms(2) by simp
  then show "length (emits_for M (new_effects (snd s) (snd s')))
           \<le> length (adds_for M (new_effects (snd s) (snd s')))"
    and "length (adds_for M (new_effects (snd s) (snd s'))) = (if M \<in> set (fst s') then 1 else 0)"
    by blast+
qed

lemma set_has_primitive: "is_primitive v \<Longrightarrow> set_has seen v \<longleftrightarrow> v \<in> set seen"
  by (auto simp: set_has_def same_value_zero_def list_ex_iff)

lemma message_event_id:
  "message_event chat msg d = Inr ev \<Longrightarrow> get_prop msg ''id'' = Inr (ev_messageId ev)"
  by (auto simp: message_event_def bind_res_def split: sum.splits)

text \<open>
  What one pass through the loop body can do: nothing, or append the id to the set
  and then, at most, call \<open>api.emit\<close> once with an event that carries this id.
\<close>

lemma process_msg_shape:
  assumes "process_msg E chat msg (seen, w) = (r, seen', w')"
  shows "(seen' = seen \<and> w' = w \<and> (\<forall>mid. get_prop msg ''id'' = Inr mid \<longrightarrow> set_has seen mid))
       \<or> (\<exists>mid. get_prop msg ''id'' = Inr mid \<and> \<not> set_has seen mid \<and> seen' = seen @ [mid]
            \<and> (w' = add_effects w [SeenAdd mid]
               \<or> (\<exists>ev. ev_messageId ev = mid
                     \<and> w' = add_effects (add_effects w [SeenAdd mid]) [Emit ev r])))"
proof (cases "get_prop msg ''id''")
  case (Inl e)
  with assms show ?thesis by (simp add: process_msg_def)
next
  case (Inr mid)
  show ?thesis
  proof (cases "set_has seen mid")
    case True
    with Inr assms show ?thesis by (simp add: process_msg_def)
  next
    case False
    have ev: "\<And>d ev. message_event chat msg d = Inr ev \<Longrightarrow> ev_messageId ev = mid"
      using message_event_id Inr by fastforce
    from assms Inr False ev show ?thesis
      by (auto simp: process_msg_def set_add_def Let_def split: sum.splits if_splits)
  qed
qed

lemma cycle_step_add:
  assumes "is_primitive M" and "\<not> set_has seen mid"
  shows "cycle_step M (seen, w) (seen @ [mid], add_effects w [SeenAdd mid])"
proof -
  have n: "new_effects w (add_effects w [SeenAdd mid]) = [SeenAdd mid]"
    by (simp add: new_effects_append trace_add_effects)
  have "mid = M \<Longrightarrow> M \<notin> set seen"
    using assms set_has_primitive by blast
  then show ?thesis
    by (auto simp: cycle_step_def n trace_add_effects emits_for_def adds_for_def)
qed

lemma cycle_step_add_emit:
  assumes "is_primitive M" and "\<not> set_has seen mid" and "ev_messageId ev = mid"
  shows "cycle_step M (seen, w)
           (seen @ [mid], add_effects (add_effects w [SeenAdd mid]) [Emit ev out])"
proof -
  have n: "new_effects w (add_effects (add_effects w [SeenAdd mid]) [Emit ev out])
             = [SeenAdd mid, Emit ev out]"
    by (simp add: new_effects_append trace_add_effects)
  have "mid = M \<Longrightarrow> M \<notin> set seen"
    using assms set_has_primitive by blast
  then show ?thesis
    using assms(3)
    by (auto simp: cycle_step_def n trace_add_effects emits_for_def adds_for_def)
qed

lemma cycle_step_fetch:
  "cycle_step M (seen, w) (seen, add_effects w [Fetch r])"
  by (simp add: cycle_step_def new_effects_append trace_add_effects emits_for_def adds_for_def)

lemma cycle_step_log:
  "cycle_step M (seen, w) (seen, add_effects w [LogError m])"
  by (simp add: cycle_step_def new_effects_append trace_add_effects emits_for_def adds_for_def)

lemma process_msg_step:
  assumes "is_primitive M"
  shows "cycle_step M s (snd (process_msg E chat msg s))"
proof -
  obtain seen w where s: "s = (seen, w)" by (cases s)
  obtain r seen' w' where p: "process_msg E chat msg (seen, w) = (r, seen', w')"
    by (cases "process_msg E chat msg (seen, w)")
  from process_msg_shape [OF p] show ?thesis
    unfolding s p
    using cycle_step_refl cycle_step_add [OF assms] cycle_step_add_emit [OF assms]
    by auto
qed

lemma process_msgs_step:
  assumes "is_primitive M"
  shows "cycle_step M s (snd (process_msgs E chat msgs s))"
proof (induction msgs arbitrary: s)
  case Nil
  show ?case by (simp add: cycle_step_refl)
next
  case (Cons m msgs)
  have one: "cycle_step M s (snd (process_msg E chat m s))"
    by (rule process_msg_step [OF assms])
  obtain r s' where p: "process_msg E chat m s = (r, s')"
    by (cases "process_msg E chat m s") auto
  show ?case
  proof (cases r)
    case None
    with p one Cons.IH [of s'] show ?thesis
      by (auto intro: cycle_step_trans)
  next
    case (Some e)
    with p one show ?thesis by simp
  qed
qed

lemma process_chat_step:
  assumes "is_primitive M"
  shows "cycle_step M s (snd (process_chat E chat s))"
  using process_msgs_step [OF assms] cycle_step_refl
  by (auto simp: process_chat_def split: sum.splits)

lemma process_chats_step:
  assumes "is_primitive M"
  shows "cycle_step M s (snd (process_chats E chats s))"
proof (induction chats arbitrary: s)
  case Nil
  show ?case by (simp add: cycle_step_refl)
next
  case (Cons c chats)
  have one: "cycle_step M s (snd (process_chat E c s))"
    by (rule process_chat_step [OF assms])
  obtain r s' where p: "process_chat E c s = (r, s')"
    by (cases "process_chat E c s") auto
  show ?case
  proof (cases r)
    case None
    with p one Cons.IH [of s'] show ?thesis
      by (auto intro: cycle_step_trans)
  next
    case (Some e)
    with p one show ?thesis by simp
  qed
qed

lemma poll_try_step:
  assumes "is_primitive M"
  shows "cycle_step M (seenMessageIds L, w) (snd (poll_try E net L w))"
proof -
  obtain r w1 where f: "fetchChatPanelData net (loop_config L) (loop_authSession L) w = (r, w1)"
    by (cases "fetchChatPanelData net (loop_config L) (loop_authSession L) w") auto
  have w1: "w1 = add_effects w [Fetch (makeSupRequest_request (loop_config L) (loop_authSession L)
                 ''/api/trpc/loader.chatPanelData'' no_options)]"
    using f makeSupRequest_world [of net "loop_config L" "loop_authSession L"
        "''/api/trpc/loader.chatPanelData''" no_options w]
    by (simp add: fetchChatPanelData_def)
  have a: "cycle_step M (seenMessageIds L, w) (seenMessageIds L, w1)"
    unfolding w1 by (rule cycle_step_fetch)
  have b: "\<And>chats. cycle_step M (seenMessageIds L, w)
              (snd (process_chats E chats (seenMessageIds L, w1)))"
    by (rule cycle_step_trans [OF a process_chats_step [OF assms]])
  show ?thesis
    using a b by (auto simp: poll_try_def f split: sum.splits)
qed

lemma poll_step:
  assumes "is_primitive M"
  shows "cycle_step M (seenMessageIds L, w)
           (seenMessageIds (fst (snd (poll E net L w))), snd (snd (poll E net L w)))"
proof -
  obtain r seen' w' where p: "poll_try E net L w = (r, seen', w')"
    by (cases "poll_try E net L w") auto
  have a: "cycle_step M (seenMessageIds L, w) (seen', w')"
    using poll_try_step [OF assms, of L w E net] by (simp add: p)
  show ?thesis
  proof (cases r)
    case None
    with p a show ?thesis by (simp add: poll_def)
  next
    case (Some e)
    have "cycle_step M (seenMessageIds L, w)
            (seen', add_effects w' [LogError (''[sup-chat] Poll error: '' @ message e)])"
      by (rule cycle_step_trans [OF a cycle_step_log])
    with p Some show ?thesis by (simp add: poll_def)
  qed
qed

lemma poll_returns: "fst (poll E net L w) = None"
  by (simp add: poll_def split: prod.splits option.splits)

lemma run_polls_step:
  assumes "is_primitive M"
  shows "cycle_step M (seenMessageIds L, w)
           (seenMessageIds (fst (run_polls E nets (L, w))), snd (run_polls E nets (L, w)))"
proof (induction nets arbitrary: L w)
  case Nil
  show ?case by (simp add: cycle_step_refl)
next
  case (Cons net nets)
  obtain r L' w' where p: "poll E net L w = (r, L', w')"
    by (cases "poll E net L w") auto
  have a: "cycle_step M (seenMessageIds L, w) (seenMessageIds L', w')"
    using poll_step [OF assms, of L w E net] by (simp add: p)
  show ?case
    using cycle_step_trans [OF a Cons.IH [of L' w']] by (simp add: p)
qed

section \<open>The outbound path\<close>

text \<open>
  C5: \<open>sendText\<close> never raises to its caller. Whatever the configuration, the file
  system and the remote service do, it returns a result: \<open>{ok: true}\<close> when the
  configuration block is present, the credential loads and the request succeeds, and
  \<open>{ok: false, error}\<close> with the message of the failure in every other case (missing
  configuration block, credential load failure, request or transport failure).
\<close>

theorem sendText_never_raises:
  "fst (sendText E net ctx w) =
     Inr (case sup_chat_config E of
            None \<Rightarrow> SendFailed ''Sup chat not configured''
          | Some config \<Rightarrow>
              (case loadAuthSession E (authSessionPath config) w of
                 (Inl e, w1) \<Rightarrow> SendFailed (message e)
               | (Inr authSession, w1) \<Rightarrow>
                   (case fst (sendChatMessage E net config authSession (chatId ctx) (msg_text ctx) [] w1) of
                      Some e \<Rightarrow> SendFailed (message e)
                    | None \<Rightarrow> SendOk)))"
  by (simp add: sendText_def sendText_try_def split: option.splits prod.splits sum.splits)

text \<open>
  C6: for every chat id and text, \<open>sendChatMessage\<close> makes exactly one request, a POST
  to the message-creation endpoint, whose body is the JSON text of a payload with
  \<open>json.content = text\<close>, \<open>json.contentData.content\<close> a single paragraph holding a single
  text run with that text and empty marks, \<open>json.isGenerated = true\<close>,
  \<open>json.isPostComment = false\<close> and \<open>json.visibility = "public"\<close>.
\<close>

theorem sendChatMessage_request_shape:
  "new_effects w (snd (sendChatMessage E net config a c t ms w))
     = [Fetch (sendChatMessage_request E config a c t ms)]
   \<and> req_url (sendChatMessage_request E config a c t ms)
       = baseUrl config @ ''/api/trpc/chatMessage.create''
   \<and> req_method (sendChatMessage_request E config a c t ms) = Some ''POST''
   \<and> req_body (sendChatMessage_request E config a c t ms)
       = Some (JSON_stringify (sendChatMessage_payload (optimisticId E) c t ms))
   \<and> js_path [Prop ''json'', Prop ''content'']
         (sendChatMessage_payload (optimisticId E) c t ms) = Some (JStr t)
   \<and> js_path [Prop ''json'', Prop ''contentData'', Prop ''content'']
         (sendChatMessage_payload (optimisticId E) c t ms)
       = Some (JArr [JObj [(''type'', JStr ''paragraph''),
            (''content'', JArr [JObj [(''type'', JStr ''text''), (''text'', JStr t),
                                      (''marks'', JArr [])]])]])
   \<and> js_path [Prop ''json'', Prop ''contentData'', Prop ''content'', Idx 0,
               Prop ''content'', Idx 0, Prop ''text'']
         (sendChatMessage_payload (optimisticId E) c t ms) = Some (JStr t)
   \<and> js_path [Prop ''json'', Prop ''contentData'', Prop ''content'', Idx 0,
               Prop ''content'', Idx 0, Prop ''marks'']
         (sendChatMessage_payload (optimisticId E) c t ms) = Some (JArr [])
   \<and> js_path [Prop ''json'', Prop ''isGenerated'']
         (sendChatMessage_payload (optimisticId E) c t ms) = Some (JBool True)
   \<and> js_path [Prop ''json'', Prop ''isPostComment'']
         (sendChatMessage_payload (optimisticId E) c t ms) = Some (JBool False)
   \<and> js_path [Prop ''json'', Prop ''visibility'']
         (sendChatMessage_payload (optimisticId E) c t ms) = Some (JStr ''public'')"
proof -
  have tr: "trace (snd (sendChatMessage E net config a c t ms w)) =
      trace w @ [Fetch (sendChatMessage_request E config a c t ms)]"
    using makeSupRequest_trace [of net config a "''/api/trpc/chatMessage.create''"
        "sendChatMessage_options E c t ms" w]
    by (cases "makeSupRequest net config a ''/api/trpc/chatMessage.create''
                 (sendChatMessage_options E c t ms) w")
       (auto simp: sendChatMessage_def sendChatMessage_request_def split: sum.splits)
  show ?thesis
    by (simp add: new_effects_append [OF tr] sendChatMessage_request_def
        makeSupRequest_request_def sendChatMessage_options_def sendChatMessage_payload_def)
qed

section \<open>The headers of a request\<close>



section \<open>gateway.stop and a disabled gateway.start\<close>

lemma gateway_stop_clears:
  "ctx_store (snd (gateway_stop w)) ''sup-chat-poll-interval'' = None"
  by (simp add: gateway_stop_def Let_def add_effects_def context_delete_def
      clearInterval_def split: option.splits)

text \<open>
  C9: calling \<open>gateway.stop\<close> twice in a row produces no error, and the second call is
  a no-op but for its log line: it cancels no timer and deletes no stored handle, and
  leaves the timers and the stored handles as the first call left them.
\<close>

theorem gateway_stop_twice:
  "fst (gateway_stop w) = None
   \<and> fst (gateway_stop (snd (gateway_stop w))) = None
   \<and> new_effects (snd (gateway_stop w)) (snd (gateway_stop (snd (gateway_stop w))))
        = [LogInfo ''[sup-chat] Gateway stopped'']
   \<and> timers (snd (gateway_stop (snd (gateway_stop w)))) = timers (snd (gateway_stop w))
   \<and> ctx_store (snd (gateway_stop (snd (gateway_stop w)))) = ctx_store (snd (gateway_stop w))"
proof -
  have second: "gateway_stop (snd (gateway_stop w)) =
      (None, add_effects (snd (gateway_stop w)) [LogInfo ''[sup-chat] Gateway stopped''])"
    using gateway_stop_clears [of w]
    by (simp add: gateway_stop_def [of "snd (gateway_stop w)"])
  show ?thesis
    by (simp add: second new_effects_def add_effects_def)
       (simp add: gateway_stop_def Let_def)
qed

text \<open>
  C10: if the configuration block of the channel is absent, or its \<open>enabled\<close> flag is
  unset or false, \<open>gateway.start\<close> returns normally and creates no loop; all it does is
  write one log line: it loads no credential file, performs no fetch and arms no
  timer.
\<close>

theorem gateway_start_disabled:
  assumes "sup_chat_config E = None
           \<or> (\<exists>c. sup_chat_config E = Some c \<and> (enabled c = None \<or> enabled c = Some False))"
  shows "fst (gateway_start E net w) = None
         \<and> fst (snd (gateway_start E net w)) = None
         \<and> new_effects w (snd (snd (gateway_start E net w)))
             = [LogInfo ''[sup-chat] Channel disabled, skipping start'']
         \<and> timers (snd (snd (gateway_start E net w))) = timers w
         \<and> ctx_store (snd (snd (gateway_start E net w))) = ctx_store w"
  using assms
  by (auto simp: gateway_start_def new_effects_def add_effects_def)

theorem gateway_start_disabled_witness:
  "sup_chat_config ex_unconfigured_api = None
   \<and> sup_chat_config ex_disabled_api = Some (ex_config\<lparr>enabled := Some False\<rparr>)
   \<and> enabled (ex_config\<lparr>enabled := Some False\<rparr>) = Some False
   \<and> fst (gateway_start ex_unconfigured_api ex_net_down ex_world) = None
   \<and> new_effects ex_world (snd (snd (gateway_start ex_unconfigured_api ex_net_down ex_world)))
        = [LogInfo ''[sup-chat] Channel disabled, skipping start'']
   \<and> fst (gateway_start ex_disabled_api (ex_net ex_direct_snapshot) ex_world) = None
   \<and> new_effects ex_world
        (snd (snd (gateway_start ex_disabled_api (ex_net ex_direct_snapshot) ex_world)))
        = [LogInfo ''[sup-chat] Channel disabled, skipping start'']"
proof -
  have h: "sup_chat_config ex_unconfigured_api = None"
    by (simp add: sup_chat_config_def ex_unconfigured_api_def ex_api_def)
  have d: "sup_chat_config ex_disabled_api = Some (ex_config\<lparr>enabled := Some False\<rparr>)"
    by (simp add: sup_chat_config_def ex_disabled_api_def ex_api_def)
  have e: "enabled (ex_config\<lparr>enabled := Some False\<rparr>) = Some False"
    by simp
  show ?thesis
    using h d e
      gateway_start_disabled [of ex_unconfigured_api ex_net_down ex_world]
      gateway_start_disabled [of ex_disabled_api "ex_net ex_direct_snapshot" ex_world]
    by simp
qed

section \<open>The relevance filter\<close>

lemma get_prop_non_nullish: "\<not> is_nullish x \<Longrightarrow> \<exists>v. get_prop x p = Inr v"
  by (cases x) auto

lemma get_prop_Inr_non_nullish: "get_prop x p = Inr v \<Longrightarrow> \<not> is_nullish x"
  by (cases x) auto

lemma includes_primitive:
  "is_primitive x \<Longrightarrow> list_ex (\<lambda>y. same_value_zero y x) xs \<longleftrightarrow> x \<in> set xs"
  by (auto simp: same_value_zero_def list_ex_iff)

lemma hasMention_typed:
  assumes "mentions_of msg = Some ms" and "is_primitive (botUserId (api_config E))"
  shows "\<exists>hm. hasMention E msg = Inr hm \<and> (js_truthy hm \<longleftrightarrow> botUserId (api_config E) \<in> set ms)"
proof (cases "get_prop msg ''mentions''")
  case (Inl e)
  with assms show ?thesis by (simp add: mentions_of_def)
next
  case (Inr m)
  with assms show ?thesis
    by (cases m) (auto simp: mentions_of_def hasMention_def bind_res_def includes_primitive)
qed

lemma message_event_total:
  assumes "\<not> is_nullish chat" and "\<not> is_nullish msg"
  shows "\<exists>ev. message_event chat msg d = Inr ev"
proof -
  obtain a where a: "get_prop chat ''id'' = Inr a" using get_prop_non_nullish [OF assms(1)] by blast
  obtain b where b: "get_prop msg ''id'' = Inr b" using get_prop_non_nullish [OF assms(2)] by blast
  obtain c where c: "get_prop msg ''senderId'' = Inr c" using get_prop_non_nullish [OF assms(2)] by blast
  obtain d where d: "get_prop msg ''content'' = Inr d" using get_prop_non_nullish [OF assms(2)] by blast
  obtain e where e: "get_prop msg ''mentions'' = Inr e" using get_prop_non_nullish [OF assms(2)] by blast
  show ?thesis by (simp add: message_event_def bind_res_def a b c d e)
qed

text \<open>
  C2: a message the loop processes for the first time (its id is read and is not yet
  in the set), whose mentions are as the interface declares them (absent or null, or
  an array) and with a primitive value as the bot's identity, makes the loop call
  \<open>api.emit\<close> if and only if the type of its chat is "direct" or the bot's identity is
  one of its mentions; so a message of a group chat that does not mention the bot is
  never emitted.
\<close>

theorem relevance_filter:
  assumes id: "get_prop msg ''id'' = Inr mid" and unseen: "\<not> set_has seen mid"
    and chat: "\<not> is_nullish chat" and ms: "mentions_of msg = Some ms"
    and self: "is_primitive (botUserId (api_config E))"
  shows "list_ex is_emit (new_effects w (snd (snd (process_msg E chat msg (seen, w)))))
         \<longleftrightarrow> (get_prop chat ''type'' = Inr (JStr ''direct'')
              \<or> botUserId (api_config E) \<in> set ms)"
proof -
  obtain ty where ty: "get_prop chat ''type'' = Inr ty"
    using get_prop_non_nullish [OF chat] by blast
  obtain hm where hm: "hasMention E msg = Inr hm"
    and hm_iff: "js_truthy hm \<longleftrightarrow> botUserId (api_config E) \<in> set ms"
    using hasMention_typed [OF ms self] by blast
  obtain ev where ev: "message_event chat msg (ty = JStr ''direct'') = Inr ev"
    using message_event_total [OF chat get_prop_Inr_non_nullish [OF id]] by blast
  show ?thesis
  proof (cases "ty = JStr ''direct'' \<or> js_truthy hm")
    case True
    then have "snd (snd (process_msg E chat msg (seen, w)))
        = add_effects (add_effects w [SeenAdd mid])
            [Emit ev (emit_outcome E (trace (add_effects w [SeenAdd mid])) ev)]"
      using id unseen ty hm ev by (simp add: process_msg_def Let_def)
    then have "new_effects w (snd (snd (process_msg E chat msg (seen, w))))
        = [SeenAdd mid, Emit ev (emit_outcome E (trace (add_effects w [SeenAdd mid])) ev)]"
      by (simp add: new_effects_append trace_add_effects)
    with True ty hm_iff show ?thesis by auto
  next
    case False
    then have "snd (snd (process_msg E chat msg (seen, w))) = add_effects w [SeenAdd mid]"
      using id unseen ty hm by (simp add: process_msg_def Let_def)
    then have "new_effects w (snd (snd (process_msg E chat msg (seen, w)))) = [SeenAdd mid]"
      by (simp add: new_effects_append trace_add_effects)
    with False ty hm_iff show ?thesis by auto
  qed
qed

theorem relevance_filter_witness:
  "get_prop (ex_msg ''m1'') ''id'' = Inr (JStr ''m1'')
   \<and> \<not> set_has [] (JStr ''m1'')
   \<and> \<not> is_nullish (ex_chat ''C1'' ''direct'' [ex_msg ''m1''])
   \<and> mentions_of (ex_msg ''m1'') = Some []
   \<and> mentions_of (ex_mention_msg ''m2'') = Some [JStr ''u2'', JStr ''bot'']
   \<and> is_primitive (botUserId (api_config ex_api))
   \<and> list_ex is_emit
        (new_effects ex_world
           (snd (snd (process_msg ex_api (ex_chat ''C1'' ''direct'' [ex_msg ''m1''])
                        (ex_msg ''m1'') ([], ex_world)))))
   \<and> list_ex is_emit
        (new_effects ex_world
           (snd (snd (process_msg ex_api (ex_chat ''C2'' ''group'' [ex_mention_msg ''m2''])
                        (ex_mention_msg ''m2'') ([], ex_world)))))
   \<and> \<not> list_ex is_emit
        (new_effects ex_world
           (snd (snd (process_msg ex_api (ex_chat ''C2'' ''group'' [ex_msg ''m1''])
                        (ex_msg ''m1'') ([], ex_world)))))"
proof -
  have i1: "get_prop (ex_msg ''m1'') ''id'' = Inr (JStr ''m1'')"
    by (simp add: ex_msg_def)
  have i2: "get_prop (ex_mention_msg ''m2'') ''id'' = Inr (JStr ''m2'')"
    by (simp add: ex_mention_msg_def)
  have u: "\<And>v. \<not> set_has [] v" by (simp add: set_has_def)
  have c1: "\<not> is_nullish (ex_chat ''C1'' ''direct'' [ex_msg ''m1''])"
    and c2: "\<not> is_nullish (ex_chat ''C2'' ''group'' [ex_mention_msg ''m2''])"
    and c3: "\<not> is_nullish (ex_chat ''C2'' ''group'' [ex_msg ''m1''])"
    by (simp_all add: ex_chat_def)
  have m1: "mentions_of (ex_msg ''m1'') = Some []"
    by (simp add: mentions_of_def ex_msg_def)
  have m2: "mentions_of (ex_mention_msg ''m2'') = Some [JStr ''u2'', JStr ''bot'']"
    by (simp add: mentions_of_def ex_mention_msg_def)
  have p: "is_primitive (botUserId (api_config ex_api))"
    by (simp add: ex_api_def)
  have b: "botUserId (api_config ex_api) = JStr ''bot''"
    by (simp add: ex_api_def)
  have t1: "get_prop (ex_chat ''C1'' ''direct'' [ex_msg ''m1'']) ''type'' = Inr (JStr ''direct'')"
    and t2: "get_prop (ex_chat ''C2'' ''group'' [ex_mention_msg ''m2'']) ''type'' = Inr (JStr ''group'')"
    and t3: "get_prop (ex_chat ''C2'' ''group'' [ex_msg ''m1'']) ''type'' = Inr (JStr ''group'')"
    by (simp_all add: ex_chat_def)
  show ?thesis
    using i1 u [of "JStr ''m1''"] c1 m1 m2 p
      relevance_filter [OF i1 u c1 m1 p, of ex_world]
      relevance_filter [OF i2 u c2 m2 p, of ex_world]
      relevance_filter [OF i1 u c3 m1 p, of ex_world]
    by (simp add: b t1 t2 t3)
qed

section \<open>Well-typed snapshots\<close>

lemma first_relevant_append:
  "first_relevant self M (ps @ qs) =
     (if M \<in> (\<lambda>p. msg_id (snd p)) ` set ps then first_relevant self M ps
      else first_relevant self M qs)"
  by (induction ps rule: first_relevant.induct) auto

lemma typed_step_trans:
  assumes a: "typed_step self M ps s s'" and b: "typed_step self M qs s' s''"
  shows "typed_step self M (ps @ qs) s s''"
proof -
  have ca: "cycle_step M s s'" and cb: "cycle_step M s' s''"
    using a b by (simp_all add: typed_step_def)
  have c: "cycle_step M s s''" by (rule cycle_step_trans [OF ca cb])
  have n: "new_effects (snd s) (snd s'') = new_effects (snd s) (snd s') @ new_effects (snd s') (snd s'')"
    by (rule new_effects_trans [OF cycle_step_trace [OF ca] cycle_step_trace [OF cb]])
  have sa: "set (fst s') = set (fst s) \<union> (\<lambda>p. msg_id (snd p)) ` set ps"
    and sb: "set (fst s'') = set (fst s') \<union> (\<lambda>p. msg_id (snd p)) ` set qs"
    using a b by (simp_all add: typed_step_def)
  have sets: "set (fst s'') = set (fst s) \<union> (\<lambda>p. msg_id (snd p)) ` set (ps @ qs)"
    using sa sb by auto
  have cnt: "M \<notin> set (fst s) \<longrightarrow>
            length (emits_for M (new_effects (snd s) (snd s'')))
              = (if first_relevant self M (ps @ qs) then 1 else 0)"
  proof
    assume u: "M \<notin> set (fst s)"
    have e1: "length (emits_for M (new_effects (snd s) (snd s')))
              = (if first_relevant self M ps then 1 else 0)"
      using a u by (simp add: typed_step_def)
    have fr: "M \<notin> (\<lambda>p. msg_id (snd p)) ` set ps \<Longrightarrow> \<not> first_relevant self M ps"
      by (induction ps rule: first_relevant.induct) auto
    show "length (emits_for M (new_effects (snd s) (snd s'')))
              = (if first_relevant self M (ps @ qs) then 1 else 0)"
    proof (cases "M \<in> (\<lambda>p. msg_id (snd p)) ` set ps")
      case True
      then have "M \<in> set (fst s')" using sa by blast
      then have "emits_for M (new_effects (snd s') (snd s'')) = []"
        using cycle_step_seen(1) [OF cb] by simp
      with e1 True show ?thesis
        by (simp add: n emits_for_def first_relevant_append)
    next
      case False
      then have u': "M \<notin> set (fst s')" using sa u by blast
      have e2: "length (emits_for M (new_effects (snd s') (snd s'')))
              = (if first_relevant self M qs then 1 else 0)"
        using b u' by (simp add: typed_step_def)
      from e1 e2 False fr show ?thesis
        by (simp add: n emits_for_def first_relevant_append)
    qed
  qed
  show ?thesis
    unfolding typed_step_def using c sets cnt by blast
qed

lemma msg_id_get:
  "\<not> is_nullish msg \<Longrightarrow> get_prop msg ''id'' = Inr (msg_id msg)"
  by (cases msg) (simp_all add: msg_id_def)

lemma process_msg_typed:
  assumes quiet: "\<And>t ev. emit_outcome E t ev = None"
    and self: "is_primitive (botUserId (api_config E))"
    and chat: "\<not> is_nullish chat" and tm: "typed_msg msg" and M: "is_primitive M"
  shows "fst (process_msg E chat msg s) = None
       \<and> typed_step (botUserId (api_config E)) M [(chat, msg)] s (snd (process_msg E chat msg s))"
proof -
  obtain seen w where s: "s = (seen, w)" by (cases s)
  let ?mid = "msg_id msg"
  have nn: "\<not> is_nullish msg" and pm: "is_primitive ?mid"
    using tm by (simp_all add: typed_msg_def)
  have id: "get_prop msg ''id'' = Inr ?mid" by (rule msg_id_get [OF nn])
  obtain ms where ms: "mentions_of msg = Some ms"
    using tm by (auto simp: typed_msg_def)
  obtain ty where ty: "get_prop chat ''type'' = Inr ty"
    using get_prop_non_nullish [OF chat] by blast
  obtain hm where hm: "hasMention E msg = Inr hm"
    and hm_iff: "js_truthy hm \<longleftrightarrow> botUserId (api_config E) \<in> set ms"
    using hasMention_typed [OF ms self] by blast
  obtain ev where ev: "message_event chat msg (ty = JStr ''direct'') = Inr ev"
    using message_event_total [OF chat nn] by blast
  have evid: "ev_messageId ev = ?mid"
    using message_event_id [OF ev] id by simp
  have rel: "relevant (botUserId (api_config E)) chat msg \<longleftrightarrow> (ty = JStr ''direct'' \<or> js_truthy hm)"
    by (simp add: relevant_def ty ms hm_iff)
  have cs: "cycle_step M s (snd (process_msg E chat msg s))"
    by (rule process_msg_step [OF M])
  show ?thesis
  proof (cases "set_has seen ?mid")
    case True
    have r: "process_msg E chat msg s = (None, seen, w)"
      using id True by (simp add: process_msg_def s)
    have mem: "?mid \<in> set seen"
      using True set_has_primitive [OF pm] by blast
    have "typed_step (botUserId (api_config E)) M [(chat, msg)] s (seen, w)"
      using mem cycle_step_refl [of M s]
      by (auto simp: typed_step_def s new_effects_self emits_for_def)
    with r show ?thesis by simp
  next
    case False
    have nmem: "?mid \<notin> set seen"
      using False set_has_primitive [OF pm] by blast
    show ?thesis
    proof (cases "ty = JStr ''direct'' \<or> js_truthy hm")
      case True
      have r: "process_msg E chat msg s
          = (None, seen @ [?mid], add_effects (add_effects w [SeenAdd ?mid]) [Emit ev None])"
        using id False ty hm ev True quiet
        by (simp add: process_msg_def s Let_def set_add_def)
      have n: "new_effects w (add_effects (add_effects w [SeenAdd ?mid]) [Emit ev None])
          = [SeenAdd ?mid, Emit ev None]"
        by (simp add: new_effects_append trace_add_effects)
      have cs': "cycle_step M (seen, w)
          (seen @ [?mid], add_effects (add_effects w [SeenAdd ?mid]) [Emit ev None])"
        using cs by (simp add: r s [symmetric])
      have "typed_step (botUserId (api_config E)) M [(chat, msg)] s
          (seen @ [?mid], add_effects (add_effects w [SeenAdd ?mid]) [Emit ev None])"
        using cs' True rel evid
        by (auto simp: typed_step_def s n emits_for_def)
      with r show ?thesis by simp
    next
      case nr: False
      have r: "process_msg E chat msg s = (None, seen @ [?mid], add_effects w [SeenAdd ?mid])"
        using id False ty hm nr
        by (simp add: process_msg_def s Let_def set_add_def)
      have n: "new_effects w (add_effects w [SeenAdd ?mid]) = [SeenAdd ?mid]"
        by (simp add: new_effects_append trace_add_effects)
      have cs': "cycle_step M (seen, w) (seen @ [?mid], add_effects w [SeenAdd ?mid])"
        using cs by (simp add: r s [symmetric])
      have "typed_step (botUserId (api_config E)) M [(chat, msg)] s
          (seen @ [?mid], add_effects w [SeenAdd ?mid])"
        using cs' nr rel
        by (auto simp: typed_step_def s n emits_for_def)
      with r show ?thesis by simp
    qed
  qed
qed

lemma typed_step_nil: "typed_step self M [] s s"
  by (simp add: typed_step_def cycle_step_refl new_effects_self emits_for_def)

lemma process_msgs_typed:
  assumes quiet: "\<And>t ev. emit_outcome E t ev = None"
    and self: "is_primitive (botUserId (api_config E))"
    and chat: "\<not> is_nullish chat" and M: "is_primitive M"
  shows "list_all typed_msg ms \<Longrightarrow>
         fst (process_msgs E chat ms s) = None
         \<and> typed_step (botUserId (api_config E)) M (map (Pair chat) ms) s
             (snd (process_msgs E chat ms s))"
proof (induction ms arbitrary: s)
  case Nil
  show ?case by (simp add: typed_step_nil)
next
  case (Cons m ms)
  have tm: "typed_msg m" and rest: "list_all typed_msg ms"
    using Cons.prems by simp_all
  obtain r s' where p: "process_msg E chat m s = (r, s')"
    by (cases "process_msg E chat m s") auto
  have r: "r = None" and one: "typed_step (botUserId (api_config E)) M [(chat, m)] s s'"
    using process_msg_typed [OF quiet self chat tm M, of s] by (simp_all add: p)
  have ih: "fst (process_msgs E chat ms s') = None
     \<and> typed_step (botUserId (api_config E)) M (map (Pair chat) ms) s'
             (snd (process_msgs E chat ms s'))"
    by (rule Cons.IH [OF rest])
  have "typed_step (botUserId (api_config E)) M ([(chat, m)] @ map (Pair chat) ms) s
             (snd (process_msgs E chat ms s'))"
    using typed_step_trans [OF one] ih by blast
  with ih show ?case by (simp add: p r)
qed

lemma process_chat_typed:
  assumes quiet: "\<And>t ev. emit_outcome E t ev = None"
    and self: "is_primitive (botUserId (api_config E))"
    and tc: "typed_chat chat" and M: "is_primitive M"
  shows "fst (process_chat E chat s) = None
         \<and> typed_step (botUserId (api_config E)) M (chat_pairs chat) s
             (snd (process_chat E chat s))"
proof -
  have chat: "\<not> is_nullish chat" using tc by (simp add: typed_chat_def)
  obtain v where v: "get_prop chat ''messages'' = Inr v"
    using get_prop_non_nullish [OF chat] by blast
  show ?thesis
  proof (cases "\<exists>ms. v = JArr ms")
    case True
    then obtain ms where ms: "v = JArr ms" by blast
    have tms: "list_all typed_msg ms" using tc by (simp add: typed_chat_def v ms)
    show ?thesis
      using process_msgs_typed [OF quiet self chat M tms, of s]
      by (simp add: process_chat_def v ms chat_pairs_def chat_messages_def)
  next
    case False
    then have f: "\<not> js_truthy v" using tc by (cases v) (auto simp: typed_chat_def v)
    have "chat_pairs chat = []"
      using False by (cases v) (auto simp: chat_pairs_def chat_messages_def v)
    with f show ?thesis
      by (simp add: process_chat_def v typed_step_nil)
  qed
qed

lemma process_chats_typed:
  assumes quiet: "\<And>t ev. emit_outcome E t ev = None"
    and self: "is_primitive (botUserId (api_config E))"
    and M: "is_primitive M"
  shows "list_all typed_chat cs \<Longrightarrow>
         fst (process_chats E cs s) = None
         \<and> typed_step (botUserId (api_config E)) M (concat (map chat_pairs cs)) s
             (snd (process_chats E cs s))"
proof (induction cs arbitrary: s)
  case Nil
  show ?case by (simp add: typed_step_nil)
next
  case (Cons c cs)
  have tc: "typed_chat c" and rest: "list_all typed_chat cs"
    using Cons.prems by simp_all
  obtain r s' where p: "process_chat E c s = (r, s')"
    by (cases "process_chat E c s") auto
  have r: "r = None" and one: "typed_step (botUserId (api_config E)) M (chat_pairs c) s s'"
    using process_chat_typed [OF quiet self tc M, of s] by (simp_all add: p)
  have ih: "fst (process_chats E cs s') = None
     \<and> typed_step (botUserId (api_config E)) M (concat (map chat_pairs cs)) s'
             (snd (process_chats E cs s'))"
    by (rule Cons.IH [OF rest])
  have "typed_step (botUserId (api_config E)) M (chat_pairs c @ concat (map chat_pairs cs)) s
             (snd (process_chats E cs s'))"
    using typed_step_trans [OF one] ih by blast
  with ih show ?case by (simp add: p r)
qed

lemma fetch_result:
  assumes "fetchChatPanelData net (loop_config L) (loop_authSession L) w = (r, w1)"
  shows "w1 = add_effects w [Fetch (poll_request L)]
       \<and> (case fetched L net of None \<Rightarrow> (\<exists>e. r = Inl e) | Some d \<Rightarrow> r = Inr d)"
  using assms
  by (auto simp: fetchChatPanelData_def makeSupRequest_def fetched_def poll_request_def Let_def
      split: fetch_outcome.splits sum.splits if_splits)

lemma opt_get_Inr:
  "\<not> is_nullish (opt_get x p) \<Longrightarrow> get_prop x p = Inr (opt_get x p)"
  by (cases x) (simp_all add: opt_get_def)

lemma chats_of_guard:
  assumes "chats_guard data = JArr cs"
  shows "bind_res (chats_of data) iterate = Inr cs"
proof -
  let ?r = "opt_get data ''result''"
  let ?d = "opt_get ?r ''data''"
  have c: "opt_get ?d ''chats'' = JArr cs"
    using assms by (simp add: chats_guard_def)
  then have gc: "get_prop ?d ''chats'' = Inr (JArr cs)"
    using opt_get_Inr [of ?d "''chats''"] by simp
  then have nd: "\<not> is_nullish ?d" by (rule get_prop_Inr_non_nullish)
  then have gd: "get_prop ?r ''data'' = Inr ?d" by (rule opt_get_Inr)
  then have nr: "\<not> is_nullish ?r" by (rule get_prop_Inr_non_nullish)
  then have gr: "get_prop data ''result'' = Inr ?r" by (rule opt_get_Inr)
  show ?thesis
    by (simp add: chats_of_def bind_res_def gr gd gc)
qed

lemma typed_step_effects:
  assumes "emits_for M es = []" and "adds_for M es = []" and "added_ids es = []"
    and "emitted_ids es = []"
  shows "typed_step self M [] (seen, w) (seen, add_effects w es)"
  using assms
  by (simp add: typed_step_def cycle_step_def new_effects_append trace_add_effects)

lemma poll_typed:
  assumes quiet: "\<And>t ev. emit_outcome E t ev = None"
    and self: "is_primitive (botUserId (api_config E))"
    and M: "is_primitive M" and tn: "typed_net L net"
  shows "typed_step (botUserId (api_config E)) M (net_pairs L net) (seenMessageIds L, w)
           (seenMessageIds (fst (snd (poll E net L w))), snd (snd (poll E net L w)))"
proof -
  let ?self = "botUserId (api_config E)"
  obtain r w1 where f: "fetchChatPanelData net (loop_config L) (loop_authSession L) w = (r, w1)"
    by (cases "fetchChatPanelData net (loop_config L) (loop_authSession L) w") auto
  have w1: "w1 = add_effects w [Fetch (poll_request L)]"
    and res: "case fetched L net of None \<Rightarrow> (\<exists>e. r = Inl e) | Some d \<Rightarrow> r = Inr d"
    using fetch_result [OF f] by simp_all
  have fetch: "typed_step ?self M [] (seenMessageIds L, w) (seenMessageIds L, w1)"
    unfolding w1 by (rule typed_step_effects) (simp_all add: emits_for_def adds_for_def)
  show ?thesis
  proof (cases "fetched L net")
    case None
    then obtain e where e: "r = Inl e" using res by auto
    have p: "poll E net L w
        = (None, L, add_effects w1 [LogError (''[sup-chat] Poll error: '' @ message e)])"
      by (simp add: poll_def poll_try_def f e)
    have "typed_step ?self M [] (seenMessageIds L, w1)
        (seenMessageIds L, add_effects w1 [LogError (''[sup-chat] Poll error: '' @ message e)])"
      by (rule typed_step_effects) (simp_all add: emits_for_def adds_for_def)
    from typed_step_trans [OF fetch this] show ?thesis
      by (simp add: p net_pairs_def None)
  next
    case (Some d)
    then have r: "r = Inr d" using res by simp
    have td: "typed_snapshot d" using tn by (simp add: typed_net_def Some)
    show ?thesis
    proof (cases "\<exists>cs. chats_guard d = JArr cs")
      case True
      then obtain cs where cs: "chats_guard d = JArr cs" by blast
      have tcs: "list_all typed_chat cs" using td by (simp add: typed_snapshot_def cs)
      obtain x s' where pc: "process_chats E cs (seenMessageIds L, w1) = (x, s')"
        by (cases "process_chats E cs (seenMessageIds L, w1)") auto
      have x: "x = None"
        and st: "typed_step ?self M (concat (map chat_pairs cs)) (seenMessageIds L, w1) s'"
        using process_chats_typed [OF quiet self M tcs, of "(seenMessageIds L, w1)"]
        by (simp_all add: pc)
      have p: "poll E net L w = (None, L\<lparr>seenMessageIds := fst s'\<rparr>, snd s')"
        by (simp add: poll_def poll_try_def f r cs chats_of_guard [OF cs] pc x
            split: prod.splits)
      have pairs: "net_pairs L net = concat (map chat_pairs cs)"
        by (simp add: net_pairs_def Some snapshot_pairs_def snapshot_chats_def cs)
      from typed_step_trans [OF fetch st] show ?thesis
        by (simp add: p pairs)
    next
      case False
      then have falsy: "\<not> js_truthy (chats_guard d)"
        using td by (cases "chats_guard d") (auto simp: typed_snapshot_def)
      have p: "poll E net L w = (None, L, w1)"
        by (simp add: poll_def poll_try_def f r falsy)
      have pairs: "net_pairs L net = []"
        using False
        by (cases "chats_guard d")
           (auto simp: net_pairs_def Some snapshot_pairs_def snapshot_chats_def)
      from fetch show ?thesis by (simp add: p pairs)
    qed
  qed
qed

lemma poll_request_poll: "poll_request (fst (snd (poll E net L w))) = poll_request L"
  by (simp add: poll_def poll_request_def split: prod.splits option.splits)

lemma run_pairs_same:
  "poll_request L' = poll_request L \<Longrightarrow>
     run_pairs L' nets = run_pairs L nets \<and> list_all (typed_net L') nets = list_all (typed_net L) nets"
  by (induction nets) (simp_all add: run_pairs_def net_pairs_def typed_net_def fetched_def)

lemma run_polls_typed:
  assumes quiet: "\<And>t ev. emit_outcome E t ev = None"
    and self: "is_primitive (botUserId (api_config E))"
    and M: "is_primitive M"
  shows "list_all (typed_net L) nets \<Longrightarrow>
         typed_step (botUserId (api_config E)) M (run_pairs L nets) (seenMessageIds L, w)
           (seenMessageIds (fst (run_polls E nets (L, w))), snd (run_polls E nets (L, w)))"
proof (induction nets arbitrary: L w)
  case Nil
  show ?case by (simp add: run_pairs_def typed_step_nil)
next
  case (Cons net nets)
  have tn: "typed_net L net" and rest: "list_all (typed_net L) nets"
    using Cons.prems by simp_all
  obtain x L' w' where p: "poll E net L w = (x, L', w')"
    by (cases "poll E net L w") auto
  have same: "poll_request L' = poll_request L"
    using poll_request_poll [of E net L w] by (simp add: p)
  have one: "typed_step (botUserId (api_config E)) M (net_pairs L net) (seenMessageIds L, w)
      (seenMessageIds L', w')"
    using poll_typed [OF quiet self M tn, of w] by (simp add: p)
  have rest': "list_all (typed_net L') nets"
    using rest run_pairs_same [OF same] by simp
  have ih: "typed_step (botUserId (api_config E)) M (run_pairs L' nets) (seenMessageIds L', w')
      (seenMessageIds (fst (run_polls E nets (L', w'))), snd (run_polls E nets (L', w')))"
    by (rule Cons.IH [OF rest'])
  have rp: "run_pairs L (net # nets) = net_pairs L net @ run_pairs L' nets"
    using run_pairs_same [OF same, of nets] by (simp add: run_pairs_def)
  from typed_step_trans [OF one ih] show ?case
    by (simp add: p rp)
qed

section \<open>Deduplication across cycles\<close>

text \<open>
  C1, as the specification states it, asks for exactly one event per message id that
  appears in more than one snapshot. A message of a group chat that does not mention
  the bot appears in two snapshots: its id enters the set once and no event is ever
  emitted for it. And when that message is edited to mention the bot before the
  second snapshot, so that it is relevant there, still no event is emitted: its id
  entered the set while it was not relevant.
\<close>

theorem dedup_exactly_once_counterexample:
  "map (\<lambda>p. msg_id (snd p)) (snapshot_pairs ex_group_snapshot) = [JStr ''m1'']
   \<and> emits_for (JStr ''m1'')
     (new_effects ex_world
        (snd (run_polls ex_api [ex_net ex_group_snapshot, ex_net ex_group_snapshot]
                (ex_loop, ex_world)))) = []
   \<and> adds_for (JStr ''m1'')
     (new_effects ex_world
        (snd (run_polls ex_api [ex_net ex_group_snapshot, ex_net ex_group_snapshot]
                (ex_loop, ex_world)))) = [SeenAdd (JStr ''m1'')]
   \<and> map (\<lambda>p. msg_id (snd p)) (snapshot_pairs ex_edited_snapshot) = [JStr ''m1'']
   \<and> list_all (\<lambda>p. relevant (JStr ''bot'') (fst p) (snd p)) (snapshot_pairs ex_edited_snapshot)
   \<and> emits_for (JStr ''m1'')
     (new_effects ex_world
        (snd (run_polls ex_api [ex_net ex_group_snapshot, ex_net ex_edited_snapshot]
                (ex_loop, ex_world)))) = []"
  by (simp add: model_defs ex_defs ex_group_snapshot_def ex_edited_snapshot_def
      ex_mention_msg_def
      typed_net_def fetched_def poll_request_def typed_snapshot_def
      typed_chat_def typed_msg_def msg_id_def mentions_of_def run_pairs_def net_pairs_def
      snapshot_pairs_def snapshot_chats_def chat_pairs_def chat_messages_def relevant_def
      chats_guard_def opt_get_def Let_def)

text \<open>
  The end-to-end scenario of the specification: a direct chat \<open>C1\<close> with the message
  \<open>m1\<close>, returned unchanged by two cycles in a row, gives exactly one event.
\<close>

lemma end_to_end_scenario:
  "emits_for (JStr ''m1'')
     (new_effects ex_world
        (snd (run_polls ex_api [ex_net ex_direct_snapshot, ex_net ex_direct_snapshot]
                (ex_loop, ex_world))))
   = [Emit \<lparr> ev_channel = ''sup-chat'', ev_chatId = JStr ''C1'', ev_messageId = JStr ''m1'',
             ev_senderId = JStr ''u1'', ev_text = JStr ''hi'', ev_isDM = True,
             ev_mentions = JUndefined \<rparr> None]"
  by (simp add: model_defs ex_defs Let_def)

text \<open>
  C1 (amended): over any sequence of cycles of one loop instance, whatever the
  responses and whatever the sink does, a message id \<open>M\<close> (a string or another
  primitive) is the id of at most one emitted event and is added to the set at most
  once, an event for \<open>M\<close> is emitted only in a run that adds \<open>M\<close>, and an id that is in
  the set stays there and is neither added nor emitted again, even if it reappears in
  a later snapshot. When the snapshots are well typed, the sink returns normally and
  \<open>M\<close> is not yet in the set, exactly one event is emitted for \<open>M\<close> across the whole
  sequence if the message is relevant (direct chat, or the bot among its mentions)
  where \<open>M\<close> first appears, and none otherwise; and \<open>M\<close> is in the set afterwards
  exactly if it appeared.
\<close>

theorem dedup_once_per_id:
  assumes "is_primitive M"
  shows "length (emits_for M (new_effects w (snd (run_polls E nets (L, w))))) \<le> 1
       \<and> length (adds_for M (new_effects w (snd (run_polls E nets (L, w))))) \<le> 1
       \<and> length (emits_for M (new_effects w (snd (run_polls E nets (L, w)))))
           \<le> length (adds_for M (new_effects w (snd (run_polls E nets (L, w)))))
       \<and> (M \<in> set (seenMessageIds L) \<longrightarrow>
            emits_for M (new_effects w (snd (run_polls E nets (L, w)))) = []
            \<and> adds_for M (new_effects w (snd (run_polls E nets (L, w)))) = []
            \<and> M \<in> set (seenMessageIds (fst (run_polls E nets (L, w)))))
       \<and> ((\<forall>t ev. emit_outcome E t ev = None)
            \<and> is_primitive (botUserId (api_config E))
            \<and> list_all (typed_net L) nets
            \<and> M \<notin> set (seenMessageIds L) \<longrightarrow>
            length (emits_for M (new_effects w (snd (run_polls E nets (L, w)))))
              = (if first_relevant (botUserId (api_config E)) M (run_pairs L nets) then 1 else 0)
            \<and> (M \<in> set (seenMessageIds (fst (run_polls E nets (L, w))))
                 \<longleftrightarrow> M \<in> (\<lambda>p. msg_id (snd p)) ` set (run_pairs L nets)))"
proof -
  let ?t = "new_effects w (snd (run_polls E nets (L, w)))"
  have step: "cycle_step M (seenMessageIds L, w)
           (seenMessageIds (fst (run_polls E nets (L, w))), snd (run_polls E nets (L, w)))"
    by (rule run_polls_step [OF assms])
  have seen: "M \<in> set (seenMessageIds L) \<Longrightarrow>
      emits_for M ?t = [] \<and> adds_for M ?t = []
      \<and> M \<in> set (seenMessageIds (fst (run_polls E nets (L, w))))"
    using cycle_step_seen [OF step] by simp
  have unseen: "M \<notin> set (seenMessageIds L) \<Longrightarrow>
      length (emits_for M ?t) \<le> length (adds_for M ?t) \<and> length (adds_for M ?t) \<le> 1"
    using cycle_step_unseen [OF step] by simp
  have upper: "length (emits_for M ?t) \<le> 1 \<and> length (adds_for M ?t) \<le> 1
       \<and> length (emits_for M ?t) \<le> length (adds_for M ?t)
       \<and> (M \<in> set (seenMessageIds L) \<longrightarrow>
            emits_for M ?t = [] \<and> adds_for M ?t = []
            \<and> M \<in> set (seenMessageIds (fst (run_polls E nets (L, w)))))"
    using seen unseen by (cases "M \<in> set (seenMessageIds L)") auto
  have exact: "(\<forall>t ev. emit_outcome E t ev = None)
            \<and> is_primitive (botUserId (api_config E))
            \<and> list_all (typed_net L) nets
            \<and> M \<notin> set (seenMessageIds L) \<longrightarrow>
            length (emits_for M ?t)
              = (if first_relevant (botUserId (api_config E)) M (run_pairs L nets) then 1 else 0)
            \<and> (M \<in> set (seenMessageIds (fst (run_polls E nets (L, w))))
                 \<longleftrightarrow> M \<in> (\<lambda>p. msg_id (snd p)) ` set (run_pairs L nets))"
  proof
    assume h: "(\<forall>t ev. emit_outcome E t ev = None)
            \<and> is_primitive (botUserId (api_config E))
            \<and> list_all (typed_net L) nets
            \<and> M \<notin> set (seenMessageIds L)"
    then have quiet: "\<And>t ev. emit_outcome E t ev = None"
      and self: "is_primitive (botUserId (api_config E))"
      and typed: "list_all (typed_net L) nets" and u: "M \<notin> set (seenMessageIds L)"
      by simp_all
    have ts: "typed_step (botUserId (api_config E)) M (run_pairs L nets) (seenMessageIds L, w)
           (seenMessageIds (fst (run_polls E nets (L, w))), snd (run_polls E nets (L, w)))"
      by (rule run_polls_typed [OF quiet self assms typed])
    have cnt: "length (emits_for M ?t)
              = (if first_relevant (botUserId (api_config E)) M (run_pairs L nets) then 1 else 0)"
      using ts u by (simp add: typed_step_def)
    have sets: "set (seenMessageIds (fst (run_polls E nets (L, w))))
        = set (seenMessageIds L) \<union> (\<lambda>p. msg_id (snd p)) ` set (run_pairs L nets)"
      using ts by (simp add: typed_step_def)
    have "M \<in> set (seenMessageIds (fst (run_polls E nets (L, w))))
                 \<longleftrightarrow> M \<in> (\<lambda>p. msg_id (snd p)) ` set (run_pairs L nets)"
      using u unfolding sets by blast
    with cnt show "length (emits_for M ?t)
              = (if first_relevant (botUserId (api_config E)) M (run_pairs L nets) then 1 else 0)
            \<and> (M \<in> set (seenMessageIds (fst (run_polls E nets (L, w))))
                 \<longleftrightarrow> M \<in> (\<lambda>p. msg_id (snd p)) ` set (run_pairs L nets))"
      by blast
  qed
  show ?thesis using upper exact by blast
qed

theorem dedup_once_per_id_witness:
  "is_primitive (JStr ''m1'')
   \<and> JStr ''m1'' \<in> set (seenMessageIds ex_seen_loop)
   \<and> emits_for (JStr ''m1'')
       (new_effects ex_world
          (snd (run_polls ex_api [ex_net ex_direct_snapshot, ex_net ex_direct_snapshot]
                  (ex_seen_loop, ex_world)))) = []
   \<and> (\<forall>t ev. emit_outcome ex_api t ev = None)
   \<and> is_primitive (botUserId (api_config ex_api))
   \<and> list_all (typed_net ex_loop) [ex_net ex_direct_snapshot, ex_net ex_direct_snapshot]
   \<and> JStr ''m1'' \<notin> set (seenMessageIds ex_loop)
   \<and> first_relevant (botUserId (api_config ex_api)) (JStr ''m1'')
        (run_pairs ex_loop [ex_net ex_direct_snapshot, ex_net ex_direct_snapshot])
   \<and> length (emits_for (JStr ''m1'')
       (new_effects ex_world
          (snd (run_polls ex_api [ex_net ex_direct_snapshot, ex_net ex_direct_snapshot]
                  (ex_loop, ex_world))))) = 1"
proof -
  have p: "is_primitive (JStr ''m1'')" by simp
  have m: "JStr ''m1'' \<in> set (seenMessageIds ex_seen_loop)"
    by (simp add: ex_seen_loop_def)
  have q: "\<forall>t ev. emit_outcome ex_api t ev = None"
    and s: "is_primitive (botUserId (api_config ex_api))"
    by (simp_all add: ex_api_def)
  have ty: "list_all (typed_net ex_loop) [ex_net ex_direct_snapshot, ex_net ex_direct_snapshot]"
    by (simp add: typed_net_def fetched_def poll_request_def typed_snapshot_def
      typed_chat_def typed_msg_def msg_id_def mentions_of_def run_pairs_def net_pairs_def
      snapshot_pairs_def snapshot_chats_def chat_pairs_def chat_messages_def relevant_def
      chats_guard_def opt_get_def ex_defs)
  have u: "JStr ''m1'' \<notin> set (seenMessageIds ex_loop)"
    by (simp add: ex_loop_def)
  have fr: "first_relevant (botUserId (api_config ex_api)) (JStr ''m1'')
        (run_pairs ex_loop [ex_net ex_direct_snapshot, ex_net ex_direct_snapshot])"
    by (simp add: typed_net_def fetched_def poll_request_def typed_snapshot_def
      typed_chat_def typed_msg_def msg_id_def mentions_of_def run_pairs_def net_pairs_def
      snapshot_pairs_def snapshot_chats_def chat_pairs_def chat_messages_def relevant_def
      chats_guard_def opt_get_def ex_defs)
  note seen = dedup_once_per_id [OF p, of ex_world ex_api
        "[ex_net ex_direct_snapshot, ex_net ex_direct_snapshot]" ex_seen_loop]
  note fresh = dedup_once_per_id [OF p, of ex_world ex_api
        "[ex_net ex_direct_snapshot, ex_net ex_direct_snapshot]" ex_loop]
  have a: "emits_for (JStr ''m1'')
       (new_effects ex_world
          (snd (run_polls ex_api [ex_net ex_direct_snapshot, ex_net ex_direct_snapshot]
                  (ex_seen_loop, ex_world)))) = []"
    using seen m by blast
  have b: "length (emits_for (JStr ''m1'')
       (new_effects ex_world
          (snd (run_polls ex_api [ex_net ex_direct_snapshot, ex_net ex_direct_snapshot]
                  (ex_loop, ex_world)))))
        = (if first_relevant (botUserId (api_config ex_api)) (JStr ''m1'')
        (run_pairs ex_loop [ex_net ex_direct_snapshot, ex_net ex_direct_snapshot]) then 1 else 0)"
    using fresh q s ty u by blast
  show ?thesis
    using p m a q s ty u fr b by simp
qed

section \<open>The order of insertion and emission\<close>

lemma failed_emit_is_emit:
  "list_ex (is_failed_emit_for M) t \<Longrightarrow> emits_for M t \<noteq> []"
proof -
  assume "list_ex (is_failed_emit_for M) t"
  then obtain e where e: "e \<in> set t" "is_failed_emit_for M e"
    by (auto simp: list_ex_iff)
  from e(2) have "is_emit_for M e" by (cases e) auto
  with e show ?thesis by (auto simp: emits_for_def filter_empty_conv)
qed

text \<open>
  C8: when the loop body meets a message whose id is not yet in the set, the id is
  appended to the set before anything else happens: the new effects start with the
  insertion, followed by at most one call of \<open>api.emit\<close> for this id, and the id is in
  the set whatever ends the pass (also when the relevance test or the sink throws;
  what the sink throws is what the pass ends with). So over the cycles of one loop
  instance, an id \<open>M\<close> whose emission attempt threw has had this one attempt only, is in
  the set, and is not emitted in any later cycle: delivery is at most once.
\<close>

theorem insert_before_emit:
  assumes "is_primitive M"
  shows "(\<forall>mid. get_prop msg ''id'' = Inr mid \<and> \<not> set_has seen mid \<longrightarrow>
            fst (snd (process_msg E chat msg (seen, w))) = seen @ [mid]
            \<and> (new_effects w (snd (snd (process_msg E chat msg (seen, w)))) = [SeenAdd mid]
               \<or> (\<exists>ev. ev_messageId ev = mid
                     \<and> new_effects w (snd (snd (process_msg E chat msg (seen, w))))
                         = [SeenAdd mid, Emit ev (fst (process_msg E chat msg (seen, w)))])))
       \<and> (list_ex (is_failed_emit_for M) (new_effects w (snd (run_polls E nets (L, w)))) \<longrightarrow>
            length (emits_for M (new_effects w (snd (run_polls E nets (L, w))))) = 1
            \<and> M \<in> set (seenMessageIds (fst (run_polls E nets (L, w))))
            \<and> emits_for M
                 (new_effects (snd (run_polls E nets (L, w)))
                    (snd (run_polls E nets' (run_polls E nets (L, w))))) = [])"
proof -
  have a: "\<forall>mid. get_prop msg ''id'' = Inr mid \<and> \<not> set_has seen mid \<longrightarrow>
            fst (snd (process_msg E chat msg (seen, w))) = seen @ [mid]
            \<and> (new_effects w (snd (snd (process_msg E chat msg (seen, w)))) = [SeenAdd mid]
               \<or> (\<exists>ev. ev_messageId ev = mid
                     \<and> new_effects w (snd (snd (process_msg E chat msg (seen, w))))
                         = [SeenAdd mid, Emit ev (fst (process_msg E chat msg (seen, w)))]))"
  proof (intro allI impI)
    fix mid
    assume h: "get_prop msg ''id'' = Inr mid \<and> \<not> set_has seen mid"
    obtain r seen' w' where p: "process_msg E chat msg (seen, w) = (r, seen', w')"
      by (cases "process_msg E chat msg (seen, w)")
    have n1: "new_effects w (add_effects w [SeenAdd mid]) = [SeenAdd mid]"
      by (simp add: new_effects_append trace_add_effects)
    have n2: "\<And>ev. new_effects w (add_effects (add_effects w [SeenAdd mid]) [Emit ev r])
                 = [SeenAdd mid, Emit ev r]"
      by (simp add: new_effects_append trace_add_effects)
    from process_msg_shape [OF p] h n1 n2
    have "seen' = seen @ [mid]
            \<and> (new_effects w w' = [SeenAdd mid]
               \<or> (\<exists>ev. ev_messageId ev = mid \<and> new_effects w w' = [SeenAdd mid, Emit ev r]))"
      by auto
    then show "fst (snd (process_msg E chat msg (seen, w))) = seen @ [mid]
            \<and> (new_effects w (snd (snd (process_msg E chat msg (seen, w)))) = [SeenAdd mid]
               \<or> (\<exists>ev. ev_messageId ev = mid
                     \<and> new_effects w (snd (snd (process_msg E chat msg (seen, w))))
                         = [SeenAdd mid, Emit ev (fst (process_msg E chat msg (seen, w)))]))"
      by (simp add: p)
  qed
  have b: "list_ex (is_failed_emit_for M) (new_effects w (snd (run_polls E nets (L, w)))) \<longrightarrow>
            length (emits_for M (new_effects w (snd (run_polls E nets (L, w))))) = 1
            \<and> M \<in> set (seenMessageIds (fst (run_polls E nets (L, w))))
            \<and> emits_for M
                 (new_effects (snd (run_polls E nets (L, w)))
                    (snd (run_polls E nets' (run_polls E nets (L, w))))) = []"
  proof
    assume f: "list_ex (is_failed_emit_for M) (new_effects w (snd (run_polls E nets (L, w))))"
    obtain L1 w1 where r: "run_polls E nets (L, w) = (L1, w1)"
      by (cases "run_polls E nets (L, w)") auto
    have ne: "emits_for M (new_effects w w1) \<noteq> []"
      using failed_emit_is_emit f r by simp
    have s1: "cycle_step M (seenMessageIds L, w) (seenMessageIds L1, w1)"
      using run_polls_step [OF assms, of L w E nets] by (simp add: r)
    have unseen: "M \<notin> set (seenMessageIds L)"
      using cycle_step_seen(1) [OF s1] ne by auto
    have pos: "0 < length (emits_for M (new_effects w w1))"
      using ne by simp
    have le: "length (emits_for M (new_effects w w1)) \<le> length (adds_for M (new_effects w w1))"
      and ad: "length (adds_for M (new_effects w w1)) = (if M \<in> set (seenMessageIds L1) then 1 else 0)"
      using cycle_step_unseen [OF s1] unseen by simp_all
    have mem: "M \<in> set (seenMessageIds L1)"
      using pos le ad by (cases "M \<in> set (seenMessageIds L1)") simp_all
    have one: "length (emits_for M (new_effects w w1)) = 1"
      using ne le ad mem by (cases "emits_for M (new_effects w w1)") simp_all
    have s2: "cycle_step M (seenMessageIds L1, w1)
        (seenMessageIds (fst (run_polls E nets' (L1, w1))), snd (run_polls E nets' (L1, w1)))"
      by (rule run_polls_step [OF assms])
    have "emits_for M (new_effects w1 (snd (run_polls E nets' (L1, w1)))) = []"
      using cycle_step_seen(1) [OF s2] mem by simp
    with one mem show "length (emits_for M (new_effects w (snd (run_polls E nets (L, w))))) = 1
            \<and> M \<in> set (seenMessageIds (fst (run_polls E nets (L, w))))
            \<and> emits_for M
                 (new_effects (snd (run_polls E nets (L, w)))
                    (snd (run_polls E nets' (run_polls E nets (L, w))))) = []"
      by (simp add: r)
  qed
  show ?thesis using a b by blast
qed

theorem insert_before_emit_witness:
  "is_primitive (JStr ''m1'')
   \<and> get_prop (ex_msg ''m1'') ''id'' = Inr (JStr ''m1'')
   \<and> \<not> set_has [] (JStr ''m1'')
   \<and> fst (snd (process_msg ex_failing_sink_api (ex_chat ''C1'' ''direct'' [ex_msg ''m1''])
                 (ex_msg ''m1'') ([], ex_world))) = [JStr ''m1'']
   \<and> list_ex (is_failed_emit_for (JStr ''m1''))
        (new_effects ex_world
           (snd (run_polls ex_failing_sink_api [ex_net ex_direct_snapshot] (ex_loop, ex_world))))
   \<and> emits_for (JStr ''m1'')
        (new_effects
           (snd (run_polls ex_failing_sink_api [ex_net ex_direct_snapshot] (ex_loop, ex_world)))
           (snd (run_polls ex_failing_sink_api [ex_net ex_direct_snapshot, ex_net ex_direct_snapshot]
                   (run_polls ex_failing_sink_api [ex_net ex_direct_snapshot] (ex_loop, ex_world)))))
       = []"
proof -
  have p: "is_primitive (JStr ''m1'')" by simp
  have i: "get_prop (ex_msg ''m1'') ''id'' = Inr (JStr ''m1'')"
    by (simp add: ex_msg_def)
  have u: "\<not> set_has [] (JStr ''m1'')" by (simp add: set_has_def)
  have f: "list_ex (is_failed_emit_for (JStr ''m1''))
        (new_effects ex_world
           (snd (run_polls ex_failing_sink_api [ex_net ex_direct_snapshot] (ex_loop, ex_world))))"
    by (simp add: model_defs ex_defs ex_failing_sink_api_def Let_def)
  note T = insert_before_emit [OF p, of "ex_msg ''m1''" "[]" ex_failing_sink_api
        "ex_chat ''C1'' ''direct'' [ex_msg ''m1'']" ex_world
        "[ex_net ex_direct_snapshot]" ex_loop
        "[ex_net ex_direct_snapshot, ex_net ex_direct_snapshot]"]
  have a: "fst (snd (process_msg ex_failing_sink_api (ex_chat ''C1'' ''direct'' [ex_msg ''m1''])
                 (ex_msg ''m1'') ([], ex_world))) = [] @ [JStr ''m1'']"
    using T i u by blast
  have b: "emits_for (JStr ''m1'')
        (new_effects
           (snd (run_polls ex_failing_sink_api [ex_net ex_direct_snapshot] (ex_loop, ex_world)))
           (snd (run_polls ex_failing_sink_api [ex_net ex_direct_snapshot, ex_net ex_direct_snapshot]
                   (run_polls ex_failing_sink_api [ex_net ex_direct_snapshot] (ex_loop, ex_world)))))
       = []"
    using T f by blast
  show ?thesis
    using p i u f a b by simp
qed

section \<open>A failing cycle\<close>

text \<open>
  C4, as the specification states it, has every failing cycle leave the set as it was
  and yield no event. A snapshot whose first chat is a direct chat with the message
  \<open>m1\<close> and whose second chat is \<open>null\<close> fails at the second chat, after \<open>m1\<close> was added
  to the set and emitted.
\<close>

theorem failed_cycle_rollback_counterexample:
  "fst (poll_try ex_api (ex_net ex_broken_snapshot) ex_loop ex_world) \<noteq> None
   \<and> seenMessageIds ex_loop = []
   \<and> seenMessageIds (fst (snd (poll ex_api (ex_net ex_broken_snapshot) ex_loop ex_world)))
       = [JStr ''m1'']
   \<and> length (emits_for (JStr ''m1'')
       (new_effects ex_world (snd (snd (poll ex_api (ex_net ex_broken_snapshot) ex_loop ex_world)))))
       = 1"
  by (simp add: model_defs ex_defs ex_broken_snapshot_def Let_def)

text \<open>
  C4 (amended): \<open>poll\<close> never raises, keeps the configuration and the session of its
  loop, and leaves the timers and the stored handle alone. If the fetch fails, the
  set is unchanged and the cycle does nothing but the request and one error log
  line, so it yields no event. If the cycle fails anywhere, the last thing it does is
  log the failure. Failed or not, nothing a cycle did is undone: its effects are
  appended to the trace, the set after the cycle is the set before it followed by
  every id the cycle inserted, and the id of every event the cycle emitted is in the
  set after it.
\<close>

theorem poll_failure_contained:
  "fst (poll E net L w) = None
   \<and> loop_config (fst (snd (poll E net L w))) = loop_config L
   \<and> loop_authSession (fst (snd (poll E net L w))) = loop_authSession L
   \<and> ctx_store (snd (snd (poll E net L w))) = ctx_store w
   \<and> timers (snd (snd (poll E net L w))) = timers w
   \<and> prefix (seenMessageIds L) (seenMessageIds (fst (snd (poll E net L w))))
   \<and> (\<forall>e. fst (fetchChatPanelData net (loop_config L) (loop_authSession L) w) = Inl e \<longrightarrow>
         seenMessageIds (fst (snd (poll E net L w))) = seenMessageIds L
         \<and> new_effects w (snd (snd (poll E net L w)))
             = [Fetch (makeSupRequest_request (loop_config L) (loop_authSession L)
                        ''/api/trpc/loader.chatPanelData'' no_options),
                LogError (''[sup-chat] Poll error: '' @ message e)])
   \<and> (\<forall>e. fst (poll_try E net L w) = Some e \<longrightarrow>
         last (trace (snd (snd (poll E net L w))))
           = LogError (''[sup-chat] Poll error: '' @ message e))
   \<and> trace (snd (snd (poll E net L w))) = trace w @ new_effects w (snd (snd (poll E net L w)))
   \<and> seenMessageIds (fst (snd (poll E net L w)))
       = seenMessageIds L @ added_ids (new_effects w (snd (snd (poll E net L w))))
   \<and> set (emitted_ids (new_effects w (snd (snd (poll E net L w)))))
       \<subseteq> set (seenMessageIds (fst (snd (poll E net L w))))"
proof -
  have step: "cycle_step JNull (seenMessageIds L, w)
           (seenMessageIds (fst (snd (poll E net L w))), snd (snd (poll E net L w)))"
    by (rule poll_step) simp
  have cfg: "loop_config (fst (snd (poll E net L w))) = loop_config L
      \<and> loop_authSession (fst (snd (poll E net L w))) = loop_authSession L"
    by (simp add: poll_def split: prod.splits option.splits)
  have fail: "\<forall>e. fst (fetchChatPanelData net (loop_config L) (loop_authSession L) w) = Inl e \<longrightarrow>
         seenMessageIds (fst (snd (poll E net L w))) = seenMessageIds L
         \<and> new_effects w (snd (snd (poll E net L w)))
             = [Fetch (makeSupRequest_request (loop_config L) (loop_authSession L)
                        ''/api/trpc/loader.chatPanelData'' no_options),
                LogError (''[sup-chat] Poll error: '' @ message e)]"
  proof (intro allI impI)
    fix e
    assume f: "fst (fetchChatPanelData net (loop_config L) (loop_authSession L) w) = Inl e"
    obtain r w1 where rw: "fetchChatPanelData net (loop_config L) (loop_authSession L) w = (r, w1)"
      by (cases "fetchChatPanelData net (loop_config L) (loop_authSession L) w") auto
    have r: "r = Inl e" using f rw by simp
    have w1: "w1 = add_effects w [Fetch (makeSupRequest_request (loop_config L) (loop_authSession L)
                 ''/api/trpc/loader.chatPanelData'' no_options)]"
      using rw makeSupRequest_world [of net "loop_config L" "loop_authSession L"
          "''/api/trpc/loader.chatPanelData''" no_options w]
      by (simp add: fetchChatPanelData_def)
    show "seenMessageIds (fst (snd (poll E net L w))) = seenMessageIds L
         \<and> new_effects w (snd (snd (poll E net L w)))
             = [Fetch (makeSupRequest_request (loop_config L) (loop_authSession L)
                        ''/api/trpc/loader.chatPanelData'' no_options),
                LogError (''[sup-chat] Poll error: '' @ message e)]"
      by (simp add: poll_def poll_try_def rw r w1 new_effects_append trace_add_effects)
  qed
  have logged: "\<forall>e. fst (poll_try E net L w) = Some e \<longrightarrow>
         last (trace (snd (snd (poll E net L w))))
           = LogError (''[sup-chat] Poll error: '' @ message e)"
    by (auto simp: poll_def trace_add_effects split: prod.splits option.splits)
  have grows: "prefix (seenMessageIds L) (seenMessageIds (fst (snd (poll E net L w))))"
    using cycle_step_grows [OF step] by (simp add: prefix_def)
  have tr: "trace (snd (snd (poll E net L w)))
      = trace w @ new_effects w (snd (snd (poll E net L w)))"
    using cycle_step_trace [OF step] by simp
  have stay: "seenMessageIds (fst (snd (poll E net L w)))
      = seenMessageIds L @ added_ids (new_effects w (snd (snd (poll E net L w))))"
    using cycle_step_grows [OF step] by simp
  have "set (emitted_ids (new_effects w (snd (snd (poll E net L w)))))
      \<subseteq> set (added_ids (new_effects w (snd (snd (poll E net L w)))))"
    using cycle_step_emitted [OF step] by simp
  also have "\<dots> \<subseteq> set (seenMessageIds (fst (snd (poll E net L w))))"
    by (metis stay set_append sup_ge2)
  finally have em: "set (emitted_ids (new_effects w (snd (snd (poll E net L w)))))
      \<subseteq> set (seenMessageIds (fst (snd (poll E net L w))))" .
  have fields: "ctx_store (snd (snd (poll E net L w))) = ctx_store w"
    "timers (snd (snd (poll E net L w))) = timers w"
    using cycle_step_fields [OF step] by simp_all
  show ?thesis
    using fields cfg fail logged grows poll_returns [of E net L w] tr stay em
    by blast
qed

theorem poll_failure_contained_witness:
  "fst (fetchChatPanelData ex_net_down (loop_config ex_loop) (loop_authSession ex_loop) ex_world)
      = Inl (TypeError ''fetch failed'')
   \<and> seenMessageIds (fst (snd (poll ex_api ex_net_down ex_loop ex_world))) = seenMessageIds ex_loop
   \<and> new_effects ex_world (snd (snd (poll ex_api ex_net_down ex_loop ex_world)))
       = [Fetch (makeSupRequest_request (loop_config ex_loop) (loop_authSession ex_loop)
                        ''/api/trpc/loader.chatPanelData'' no_options),
          LogError ''[sup-chat] Poll error: fetch failed'']
   \<and> fst (poll_try ex_api (ex_net ex_broken_snapshot) ex_loop ex_world)
       = Some (projl (get_prop JNull ''messages''))
   \<and> last (trace (snd (snd (poll ex_api (ex_net ex_broken_snapshot) ex_loop ex_world))))
       = LogError (''[sup-chat] Poll error: '' @ message (projl (get_prop JNull ''messages'')))
   \<and> added_ids (new_effects ex_world
         (snd (snd (poll ex_api (ex_net ex_broken_snapshot) ex_loop ex_world)))) = [JStr ''m1'']
   \<and> seenMessageIds (fst (snd (poll ex_api (ex_net ex_broken_snapshot) ex_loop ex_world)))
       = seenMessageIds ex_loop @ [JStr ''m1'']"
proof -
  have f: "fst (fetchChatPanelData ex_net_down (loop_config ex_loop) (loop_authSession ex_loop) ex_world)
      = Inl (TypeError ''fetch failed'')"
    by (simp add: fetchChatPanelData_def makeSupRequest_def ex_net_down_def Let_def)
  have b: "fst (poll_try ex_api (ex_net ex_broken_snapshot) ex_loop ex_world)
       = Some (projl (get_prop JNull ''messages''))"
    by (simp add: model_defs ex_defs ex_broken_snapshot_def Let_def)
  have a: "added_ids (new_effects ex_world
         (snd (snd (poll ex_api (ex_net ex_broken_snapshot) ex_loop ex_world)))) = [JStr ''m1'']"
    by (simp add: model_defs ex_defs ex_broken_snapshot_def Let_def)
  note down = poll_failure_contained [of ex_api ex_net_down ex_loop ex_world]
  note broken = poll_failure_contained [of ex_api "ex_net ex_broken_snapshot" ex_loop ex_world]
  have d1: "seenMessageIds (fst (snd (poll ex_api ex_net_down ex_loop ex_world)))
        = seenMessageIds ex_loop
      \<and> new_effects ex_world (snd (snd (poll ex_api ex_net_down ex_loop ex_world)))
       = [Fetch (makeSupRequest_request (loop_config ex_loop) (loop_authSession ex_loop)
                        ''/api/trpc/loader.chatPanelData'' no_options),
          LogError (''[sup-chat] Poll error: '' @ message (TypeError ''fetch failed''))]"
    using down f by blast
  have b1: "last (trace (snd (snd (poll ex_api (ex_net ex_broken_snapshot) ex_loop ex_world))))
       = LogError (''[sup-chat] Poll error: '' @ message (projl (get_prop JNull ''messages'')))"
    using broken b by blast
  have b2: "seenMessageIds (fst (snd (poll ex_api (ex_net ex_broken_snapshot) ex_loop ex_world)))
       = seenMessageIds ex_loop @ added_ids (new_effects ex_world
         (snd (snd (poll ex_api (ex_net ex_broken_snapshot) ex_loop ex_world))))"
    using broken by blast
  show ?thesis
    using f b a d1 b1 b2 by simp
qed

section \<open>The order of gateway.start\<close>

lemma loadAuthSession_effects:
  "\<exists>t. trace (snd (loadAuthSession E path w)) = trace w @ t
       \<and> \<not> list_ex is_fetch t \<and> \<not> list_ex is_set_interval t
       \<and> next_timer (snd (loadAuthSession E path w)) = next_timer w
       \<and> timers (snd (loadAuthSession E path w)) = timers w
       \<and> ctx_store (snd (loadAuthSession E path w)) = ctx_store w"
  by (cases "fs E (expand_home (os_homedir E) path)")
     (simp_all add: loadAuthSession_def loadAuthSession_try_def Let_def trace_add_effects)

lemma poll_trace:
  "trace (snd (snd (poll E net L w))) = trace w @ new_effects w (snd (snd (poll E net L w)))"
  using cycle_step_trace [OF poll_step [of JNull L w E net]] by simp

lemma poll_try_first_fetch:
  "\<exists>t. trace (snd (snd (poll_try E net L w))) =
          trace w @ Fetch (makeSupRequest_request (loop_config L) (loop_authSession L)
                 ''/api/trpc/loader.chatPanelData'' no_options) # t"
proof -
  let ?r = "makeSupRequest_request (loop_config L) (loop_authSession L)
                 ''/api/trpc/loader.chatPanelData'' no_options"
  obtain r w1 where f: "fetchChatPanelData net (loop_config L) (loop_authSession L) w = (r, w1)"
    by (cases "fetchChatPanelData net (loop_config L) (loop_authSession L) w") auto
  have w1: "w1 = add_effects w [Fetch ?r]"
    using f makeSupRequest_world [of net "loop_config L" "loop_authSession L"
        "''/api/trpc/loader.chatPanelData''" no_options w]
    by (simp add: fetchChatPanelData_def)
  have a: "\<And>chats. \<exists>t. trace (snd (snd (process_chats E chats (seenMessageIds L, w1)))) = trace w @ Fetch ?r # t"
  proof -
    fix chats
    have "trace (snd (snd (process_chats E chats (seenMessageIds L, w1))))
         = trace w1 @ new_effects w1 (snd (snd (process_chats E chats (seenMessageIds L, w1))))"
      using cycle_step_trace [OF process_chats_step [of JNull "(seenMessageIds L, w1)" E chats]]
      by simp
    then show "\<exists>t. trace (snd (snd (process_chats E chats (seenMessageIds L, w1)))) = trace w @ Fetch ?r # t"
      by (simp add: w1 trace_add_effects)
  qed
  have b: "\<exists>t. trace w1 = trace w @ Fetch ?r # t"
    by (simp add: w1 trace_add_effects)
  show ?thesis
    using a b by (auto simp: poll_try_def f split: sum.splits)
qed

lemma poll_first_fetch:
  "\<exists>t. new_effects w (snd (snd (poll E net L w))) =
          Fetch (makeSupRequest_request (loop_config L) (loop_authSession L)
                 ''/api/trpc/loader.chatPanelData'' no_options) # t"
proof -
  obtain r seen' w' where p: "poll_try E net L w = (r, seen', w')"
    by (cases "poll_try E net L w") auto
  obtain t where t: "trace w' = trace w @ Fetch (makeSupRequest_request (loop_config L) (loop_authSession L)
                 ''/api/trpc/loader.chatPanelData'' no_options) # t"
    using poll_try_first_fetch [of E net L w] by (auto simp: p)
  show ?thesis
    by (cases r) (simp_all add: poll_def p new_effects_def t trace_add_effects)
qed

text \<open>
  C3, as the specification states it, has the initial cycle complete before the timer
  is armed. \<open>gateway.start\<close> calls \<open>setInterval\<close> (line 261) before it awaits the initial
  \<open>poll()\<close> (line 264): no fetch precedes the arming of the timer, and the fetch of the
  initial cycle follows it.
\<close>

theorem first_cycle_before_timer_counterexample:
  "\<not> list_ex is_fetch
       (effects_before_timer
          (new_effects ex_world (snd (snd (gateway_start ex_api (ex_net ex_direct_snapshot) ex_world)))))
   \<and> list_ex is_set_interval
       (new_effects ex_world (snd (snd (gateway_start ex_api (ex_net ex_direct_snapshot) ex_world))))
   \<and> list_ex is_fetch
       (effects_from_timer
          (new_effects ex_world (snd (snd (gateway_start ex_api (ex_net ex_direct_snapshot) ex_world)))))"
  by (simp add: gateway_start_def start_try_def sup_chat_config_def loadAuthSession_def
      loadAuthSession_try_def expand_home_def js_trim_def js_whitespace_def trim_start.simps setInterval_def
      context_set_def effects_before_timer_def effects_from_timer_def
      model_defs ex_defs Let_def)

text \<open>
  C3 (amended): with an enabled configuration and a credential that loads,
  \<open>gateway.start\<close> returns normally with a loop; up to the arming of the timer it only
  logs and reads the credential file, with no fetch; then it arms the timer, then
  runs one whole fetch-and-process cycle on an empty set, and only then stores the
  handle of the timer and logs that the gateway started.
\<close>

theorem gateway_start_order:
  assumes cfg: "sup_chat_config E = Some config" and en: "enabled config = Some True"
    and cred: "fst (loadAuthSession E (authSessionPath config)
                      (add_effects w [LogInfo ''[sup-chat] Starting channel gateway''])) = Inr a"
  shows "fst (gateway_start E net w) = None
       \<and> fst (snd (gateway_start E net w)) = Some (fst (snd (start_initial_poll E net config a w)))
       \<and> effects_before_timer (new_effects w (snd (snd (gateway_start E net w))))
           = new_effects w (start_world_loaded E config w)
       \<and> \<not> list_ex is_fetch (effects_before_timer (new_effects w (snd (snd (gateway_start E net w)))))
       \<and> effects_from_timer (new_effects w (snd (snd (gateway_start E net w))))
           = SetInterval (Timer (next_timer w)) (start_interval config)
             # new_effects (start_world_armed E config w) (snd (snd (start_initial_poll E net config a w)))
             @ [ContextSet ''sup-chat-poll-interval'' (Timer (next_timer w)),
                LogInfo (''[sup-chat] Gateway started (polling every ''
                         @ show_int (start_interval config) @ ''ms)'')]
       \<and> list_ex is_fetch
           (new_effects (start_world_armed E config w) (snd (snd (start_initial_poll E net config a w))))"
proof -
  let ?w0 = "add_effects w [LogInfo ''[sup-chat] Starting channel gateway'']"
  let ?w1 = "start_world_loaded E config w"
  let ?ms = "start_interval config"
  let ?h = "Timer (next_timer w)"
  let ?w2 = "start_world_armed E config w"
  let ?p = "start_initial_poll E net config a w"
  let ?w3 = "snd (snd ?p)"
  let ?fin = "[ContextSet ''sup-chat-poll-interval'' ?h,
                LogInfo (''[sup-chat] Gateway started (polling every ''
                         @ show_int ?ms @ ''ms)'')]"
  obtain t1 where t1: "trace ?w1 = trace ?w0 @ t1"
    and nf: "\<not> list_ex is_fetch t1" and ns: "\<not> list_ex is_set_interval t1"
    and nt: "next_timer ?w1 = next_timer w"
    using loadAuthSession_effects [of E "authSessionPath config" ?w0]
    by (auto simp: start_world_loaded_def)
  have l: "loadAuthSession E (authSessionPath config) ?w0 = (Inr a, ?w1)"
    using cred by (simp add: start_world_loaded_def prod_eq_iff)
  have si: "setInterval ?ms ?w1 = (?h, ?w2)"
    by (simp add: start_world_armed_def setInterval_def Let_def nt)
  have tr2: "trace ?w2 = trace ?w1 @ [SetInterval ?h ?ms]"
    by (simp add: start_world_armed_def setInterval_def Let_def nt trace_add_effects)
  have tr3: "trace ?w3 = trace ?w2 @ new_effects ?w2 ?w3"
    unfolding start_initial_poll_def by (rule poll_trace)
  have pr: "fst ?p = None"
    unfolding start_initial_poll_def by (rule poll_returns)
  have g: "gateway_start E net w =
        (None, Some (fst (snd ?p)),
         add_effects (context_set ''sup-chat-poll-interval'' ?h ?w3)
           [LogInfo (''[sup-chat] Gateway started (polling every '' @ show_int ?ms @ ''ms)'')])"
    using pr
    by (cases ?p)
       (simp add: gateway_start_def cfg en start_try_def l si Let_def
          start_interval_def [symmetric] start_initial_poll_def [symmetric])
  have tr: "trace (snd (snd (gateway_start E net w)))
        = trace w @ (LogInfo ''[sup-chat] Starting channel gateway'' # t1)
            @ SetInterval ?h ?ms # new_effects ?w2 ?w3 @ ?fin"
    using tr3 by (simp add: g trace_add_effects context_set_def tr2 t1)
  have n: "new_effects w (snd (snd (gateway_start E net w)))
        = (LogInfo ''[sup-chat] Starting channel gateway'' # t1)
            @ SetInterval ?h ?ms # new_effects ?w2 ?w3 @ ?fin"
    by (rule new_effects_append [OF tr])
  have n1: "new_effects w ?w1 = LogInfo ''[sup-chat] Starting channel gateway'' # t1"
    by (rule new_effects_append) (simp add: t1 trace_add_effects)
  have quiet: "\<forall>e \<in> set (LogInfo ''[sup-chat] Starting channel gateway'' # t1). \<not> is_set_interval e"
    using ns by (auto simp: list_ex_iff)
  have before: "effects_before_timer (new_effects w (snd (snd (gateway_start E net w))))
        = LogInfo ''[sup-chat] Starting channel gateway'' # t1"
    unfolding n effects_before_timer_def
    using quiet by (subst takeWhile_append2) auto
  have aft: "effects_from_timer (new_effects w (snd (snd (gateway_start E net w))))
        = SetInterval ?h ?ms # new_effects ?w2 ?w3 @ ?fin"
    unfolding n effects_from_timer_def
    using quiet by (subst dropWhile_append2) auto
  have fetch: "list_ex is_fetch (new_effects ?w2 ?w3)"
    using poll_first_fetch [of ?w2 E net
        "\<lparr> loop_config = config, loop_authSession = a, seenMessageIds = [] \<rparr>"]
    by (auto simp: start_initial_poll_def)
  have r1: "fst (gateway_start E net w) = None"
    and r2: "fst (snd (gateway_start E net w)) = Some (fst (snd ?p))"
    by (simp_all add: g)
  show ?thesis
    using nf fetch r1 r2 by (simp add: before aft n1)
qed

theorem gateway_start_order_witness:
  "sup_chat_config ex_api = Some ex_config
   \<and> enabled ex_config = Some True
   \<and> fst (loadAuthSession ex_api (authSessionPath ex_config)
            (add_effects ex_world [LogInfo ''[sup-chat] Starting channel gateway''])) = Inr ''tok''
   \<and> fst (gateway_start ex_api (ex_net ex_direct_snapshot) ex_world) = None
   \<and> \<not> list_ex is_fetch
       (effects_before_timer
          (new_effects ex_world (snd (snd (gateway_start ex_api (ex_net ex_direct_snapshot) ex_world)))))"
proof -
  have c: "sup_chat_config ex_api = Some ex_config"
    by (simp add: sup_chat_config_def ex_api_def)
  have e: "enabled ex_config = Some True"
    by (simp add: ex_config_def)
  have l: "fst (loadAuthSession ex_api (authSessionPath ex_config)
            (add_effects ex_world [LogInfo ''[sup-chat] Starting channel gateway''])) = Inr ''tok''"
    by (simp add: gateway_start_def start_try_def sup_chat_config_def loadAuthSession_def
      loadAuthSession_try_def expand_home_def js_trim_def js_whitespace_def trim_start.simps setInterval_def
      context_set_def effects_before_timer_def effects_from_timer_def
        add_effects_def ex_defs Let_def)
  show ?thesis
    using c e l gateway_start_order [OF c e l, of "ex_net ex_direct_snapshot"]
    by blast
qed

end
